theory Spec2Isabelle
  imports Complex_Main
begin

section \<open>Configuration (config.py)\<close>

text \<open>
  The fields of the \<^verbatim>\<open>GameConfig\<close> dataclass that the game logic, the smoother and the
  direction translator read. Python integers are unbounded, so they are \<open>int\<close>.
\<close>

record GameConfig =
  WINDOW_WIDTH :: int
  WINDOW_HEIGHT :: int
  GRID_SIZE :: int
  FOOD_POINTS :: int
  GESTURE_SMOOTHING_WINDOW :: int
  DIRECTION_THRESHOLD :: int

text \<open>The dataclass defaults.\<close>

definition default_config :: GameConfig where
  "default_config =
     \<lparr> WINDOW_WIDTH = 800, WINDOW_HEIGHT = 600, GRID_SIZE = 20, FOOD_POINTS = 10,
       GESTURE_SMOOTHING_WINDOW = 5, DIRECTION_THRESHOLD = 30 \<rparr>"

text \<open>The exceptions the modelled code can raise.\<close>

datatype py_error = ZeroDivisionError | ValueError | IndexError

text \<open>
  \<^verbatim>\<open>get_grid_dimensions\<close>: floor division \<^verbatim>\<open>//\<close> (HOL's \<open>div\<close> on \<open>int\<close> is floor
  division too); a zero \<^verbatim>\<open>GRID_SIZE\<close> raises.
\<close>

definition get_grid_dimensions :: "GameConfig \<Rightarrow> py_error + int \<times> int" where
  "get_grid_dimensions cfg =
     (if GRID_SIZE cfg = 0 then Inl ZeroDivisionError
      else Inr (WINDOW_WIDTH cfg div GRID_SIZE cfg, WINDOW_HEIGHT cfg div GRID_SIZE cfg))"

section \<open>The random source\<close>

text \<open>
  The global generator of \<^verbatim>\<open>random\<close> is an infinite sequence of raw draws; the game
  state counts how many it has consumed. \<^verbatim>\<open>random.randint(a, b)\<close> takes the next raw
  draw into the closed range \<open>[a, b]\<close> and raises \<^verbatim>\<open>ValueError\<close> on an empty range.
  Every sequence of in-range results is produced by some source.
\<close>

type_synonym random_source = "nat \<Rightarrow> nat"

definition randint :: "random_source \<Rightarrow> nat \<Rightarrow> int \<Rightarrow> int \<Rightarrow> py_error + int" where
  "randint rnd n a b =
     (if b < a then Inl ValueError else Inr (a + int (rnd n) mod (b - a + 1)))"

section \<open>The game (game.py)\<close>

datatype Direction = UP | DOWN | LEFT | RIGHT

text \<open>The \<^verbatim>\<open>value\<close> of each member of the \<^verbatim>\<open>Direction\<close> enum.\<close>

fun direction_value :: "Direction \<Rightarrow> int \<times> int" where
  "direction_value UP = (0, -1)"
| "direction_value DOWN = (0, 1)"
| "direction_value LEFT = (-1, 0)"
| "direction_value RIGHT = (1, 0)"

datatype GameState = MENU | PLAYING | PAUSED | GAME_OVER

text \<open>
  The attributes of \<^verbatim>\<open>SnakeGame\<close> that the logic reads and writes (the pygame
  handles are left out). The deque \<^verbatim>\<open>snake\<close> is a list, head first.
  \<^verbatim>\<open>speed_multiplier\<close> is a float in the source and an exact rational here; nothing
  below depends on its value. \<open>draws\<close> is the number of raw draws taken from the
  random source so far.
\<close>

record SnakeGame =
  state :: GameState
  score :: int
  high_score :: int
  frame_count :: int
  speed_multiplier :: rat
  snake :: "(int \<times> int) list"
  direction :: Direction
  next_direction :: Direction
  food :: "int \<times> int"
  draws :: nat

text \<open>
  The loop of \<^verbatim>\<open>_spawn_food\<close>: draw \<open>x\<close>, draw \<open>y\<close>, return the cell when it is not
  on the snake, draw again otherwise. The loop has no bound, so the function is
  partial: \<open>None\<close> is the run that never returns.
\<close>

partial_function (option) spawn_food_loop ::
  "random_source \<Rightarrow> int \<Rightarrow> int \<Rightarrow> (int \<times> int) list \<Rightarrow> nat
     \<Rightarrow> (py_error + (int \<times> int) \<times> nat) option" where
  "spawn_food_loop rnd grid_cols grid_rows cells n =
     (case randint rnd n 0 (grid_cols - 1) of
        Inl e \<Rightarrow> Some (Inl e)
      | Inr x \<Rightarrow>
          (case randint rnd (n + 1) 0 (grid_rows - 1) of
             Inl e \<Rightarrow> Some (Inl e)
           | Inr y \<Rightarrow>
               if (x, y) \<notin> set cells then Some (Inr ((x, y), n + 2))
               else spawn_food_loop rnd grid_cols grid_rows cells (n + 2)))"

declare spawn_food_loop.simps [code]

text \<open>\<^verbatim>\<open>_spawn_food\<close>: the food cell and the new count of draws.\<close>

definition spawn_food ::
  "GameConfig \<Rightarrow> random_source \<Rightarrow> SnakeGame \<Rightarrow> (py_error + (int \<times> int) \<times> nat) option" where
  "spawn_food cfg rnd s =
     (case get_grid_dimensions cfg of
        Inl e \<Rightarrow> Some (Inl e)
      | Inr (grid_cols, grid_rows) \<Rightarrow>
          spawn_food_loop rnd grid_cols grid_rows (snake s) (draws s))"

text \<open>\<^verbatim>\<open>reset_game\<close>.\<close>

definition reset_game ::
  "GameConfig \<Rightarrow> random_source \<Rightarrow> SnakeGame \<Rightarrow> (py_error + SnakeGame) option" where
  "reset_game cfg rnd s =
     (case get_grid_dimensions cfg of
        Inl e \<Rightarrow> Some (Inl e)
      | Inr (grid_cols, grid_rows) \<Rightarrow>
          (let start_x = grid_cols div 2;
               start_y = grid_rows div 2;
               s1 = s\<lparr> snake := [(start_x, start_y), (start_x - 1, start_y), (start_x - 2, start_y)],
                       direction := RIGHT, next_direction := RIGHT \<rparr>
           in case spawn_food cfg rnd s1 of
                None \<Rightarrow> None
              | Some (Inl e) \<Rightarrow> Some (Inl e)
              | Some (Inr (f, n)) \<Rightarrow>
                  Some (Inr (s1\<lparr> food := f, draws := n, score := 0, frame_count := 0,
                                  speed_multiplier := 1, state := MENU \<rparr>))))"

text \<open>\<^verbatim>\<open>start_game\<close> and \<^verbatim>\<open>toggle_pause\<close>.\<close>

definition start_game :: "SnakeGame \<Rightarrow> SnakeGame" where
  "start_game s = (if state s = MENU then s\<lparr> state := PLAYING \<rparr> else s)"

definition toggle_pause :: "SnakeGame \<Rightarrow> SnakeGame" where
  "toggle_pause s =
     (if state s = PLAYING then s\<lparr> state := PAUSED \<rparr>
      else if state s = PAUSED then s\<lparr> state := PLAYING \<rparr>
      else s)"

text \<open>
  \<^verbatim>\<open>update_direction\<close>: the hand position is \<open>None\<close> or a pixel pair. The head's
  centre on the screen, the offsets, the threshold test and the dominant axis are the
  source's.
\<close>

definition update_direction :: "GameConfig \<Rightarrow> (int \<times> int) option \<Rightarrow> SnakeGame \<Rightarrow> SnakeGame" where
  "update_direction cfg hand_pos s =
     (case hand_pos of
        None \<Rightarrow> s
      | Some hp \<Rightarrow>
          (case snake s of
             [] \<Rightarrow> s
           | head # _ \<Rightarrow>
               if state s \<noteq> PLAYING then s
               else
                 (let head_screen = (fst head * GRID_SIZE cfg + GRID_SIZE cfg div 2,
                                     snd head * GRID_SIZE cfg + GRID_SIZE cfg div 2);
                      dx = fst hp - fst head_screen;
                      dy = snd hp - snd head_screen
                  in if \<bar>dx\<bar> > DIRECTION_THRESHOLD cfg \<or> \<bar>dy\<bar> > DIRECTION_THRESHOLD cfg
                     then
                       (if \<bar>dx\<bar> > \<bar>dy\<bar>
                        then s\<lparr> next_direction := (if dx > 0 then RIGHT else LEFT) \<rparr>
                        else s\<lparr> next_direction := (if dy > 0 then DOWN else UP) \<rparr>)
                     else s)))"

text \<open>
  \<^verbatim>\<open>_update_high_score\<close>: the write to \<^verbatim>\<open>high_score.txt\<close> is best effort and its
  failure is swallowed; the attribute is what the model keeps.
\<close>

definition update_high_score :: "SnakeGame \<Rightarrow> SnakeGame" where
  "update_high_score s =
     (if score s > high_score s then s\<lparr> high_score := score s \<rparr> else s)"

text \<open>\<^verbatim>\<open>_increase_speed\<close>.\<close>

definition increase_speed :: "SnakeGame \<Rightarrow> SnakeGame" where
  "increase_speed s =
     (let snake_length = int (length (snake s))
      in s\<lparr> speed_multiplier := 1 + of_int snake_length * (5 / 100) \<rparr>)"

text \<open>
  \<^verbatim>\<open>update\<close>, one simulation step. \<^verbatim>\<open>self.snake[0]\<close> raises on an empty deque;
  \<^verbatim>\<open>appendleft\<close> is \<open>#\<close> and \<^verbatim>\<open>pop\<close> removes the last cell.
\<close>

definition update ::
  "GameConfig \<Rightarrow> random_source \<Rightarrow> SnakeGame \<Rightarrow> (py_error + SnakeGame) option" where
  "update cfg rnd s =
     (if state s \<noteq> PLAYING then Some (Inr s)
      else
        (let s1 = s\<lparr> frame_count := frame_count s + 1 \<rparr>;
             s2 = (if (fst (direction_value (next_direction s1)) * -1,
                       snd (direction_value (next_direction s1)) * -1)
                      \<noteq> direction_value (direction s1)
                   then s1\<lparr> direction := next_direction s1 \<rparr> else s1)
         in case snake s2 of
              [] \<Rightarrow> Some (Inl IndexError)
            | head # _ \<Rightarrow>
                (let new_head = (fst head + fst (direction_value (direction s2)),
                                 snd head + snd (direction_value (direction s2)))
                 in case get_grid_dimensions cfg of
                      Inl e \<Rightarrow> Some (Inl e)
                    | Inr (grid_cols, grid_rows) \<Rightarrow>
                        if fst new_head < 0 \<or> fst new_head \<ge> grid_cols \<or>
                           snd new_head < 0 \<or> snd new_head \<ge> grid_rows
                        then Some (Inr (update_high_score (s2\<lparr> state := GAME_OVER \<rparr>)))
                        else if new_head \<in> set (snake s2)
                        then Some (Inr (update_high_score (s2\<lparr> state := GAME_OVER \<rparr>)))
                        else
                          (let s3 = s2\<lparr> snake := new_head # snake s2 \<rparr>
                           in if new_head = food s3
                              then
                                (let s4 = s3\<lparr> score := score s3 + FOOD_POINTS cfg \<rparr>
                                 in case spawn_food cfg rnd s4 of
                                      None \<Rightarrow> None
                                    | Some (Inl e) \<Rightarrow> Some (Inl e)
                                    | Some (Inr (f, n)) \<Rightarrow>
                                        Some (Inr (increase_speed (s4\<lparr> food := f, draws := n \<rparr>))))
                              else Some (Inr (s3\<lparr> snake := butlast (snake s3) \<rparr>))))))"

text \<open>
  \<^verbatim>\<open>__init__\<close>: the attributes are set (the two \<^verbatim>\<open>None\<close> placeholders for the snake
  and the food are the empty list and the origin) and \<^verbatim>\<open>reset_game\<close> overwrites all of
  them but the high score, which was loaded from storage, here a parameter.
\<close>

definition initial_attributes :: "int \<Rightarrow> nat \<Rightarrow> SnakeGame" where
  "initial_attributes loaded_high_score n =
     \<lparr> state = MENU, score = 0, high_score = loaded_high_score, frame_count = 0,
       speed_multiplier = 1, snake = [], direction = RIGHT, next_direction = RIGHT,
       food = (0, 0), draws = n \<rparr>"

definition new_game ::
  "GameConfig \<Rightarrow> random_source \<Rightarrow> int \<Rightarrow> nat \<Rightarrow> (py_error + SnakeGame) option" where
  "new_game cfg rnd loaded_high_score n =
     reset_game cfg rnd (initial_attributes loaded_high_score n)"

text \<open>
  A caller's view of the controller: the public methods, and running a sequence of
  calls. A call that raises or never returns ends the run with that outcome.
\<close>

datatype game_call =
    ResetGame
  | StartGame
  | TogglePause
  | UpdateDirection "(int \<times> int) option"
  | Update

fun exec_call ::
  "GameConfig \<Rightarrow> random_source \<Rightarrow> game_call \<Rightarrow> SnakeGame \<Rightarrow> (py_error + SnakeGame) option" where
  "exec_call cfg rnd ResetGame s = reset_game cfg rnd s"
| "exec_call cfg rnd StartGame s = Some (Inr (start_game s))"
| "exec_call cfg rnd TogglePause s = Some (Inr (toggle_pause s))"
| "exec_call cfg rnd (UpdateDirection hand_pos) s = Some (Inr (update_direction cfg hand_pos s))"
| "exec_call cfg rnd Update s = update cfg rnd s"

fun exec_calls ::
  "GameConfig \<Rightarrow> random_source \<Rightarrow> game_call list \<Rightarrow> SnakeGame \<Rightarrow> (py_error + SnakeGame) option" where
  "exec_calls cfg rnd [] s = Some (Inr s)"
| "exec_calls cfg rnd (c # cs) s =
     (case exec_call cfg rnd c s of
        None \<Rightarrow> None
      | Some (Inl e) \<Rightarrow> Some (Inl e)
      | Some (Inr s') \<Rightarrow> exec_calls cfg rnd cs s')"

text \<open>\<open>k\<close> consecutive calls of \<^verbatim>\<open>update\<close> with nothing in between.\<close>

fun updates ::
  "GameConfig \<Rightarrow> random_source \<Rightarrow> nat \<Rightarrow> SnakeGame \<Rightarrow> (py_error + SnakeGame) option" where
  "updates cfg rnd 0 s = Some (Inr s)"
| "updates cfg rnd (Suc k) s =
     (case update cfg rnd s of
        None \<Rightarrow> None
      | Some (Inl e) \<Rightarrow> Some (Inl e)
      | Some (Inr s') \<Rightarrow> updates cfg rnd k s')"

text \<open>
  Round \<open>i\<close> of a sampling loop that starts with \<open>n\<close> draws consumed reads draw
  \<open>n + 2 * i\<close> for the column and draw \<open>n + 2 * i + 1\<close> for the row. The random
  source keeps drawing rows other than \<open>r\<close>: after any number of rounds a later round
  draws a cell off row \<open>r\<close>.
\<close>

definition draws_off_row :: "random_source \<Rightarrow> int \<Rightarrow> int \<Rightarrow> nat \<Rightarrow> bool" where
  "draws_off_row rnd grid_rows r n =
     (\<forall>j. \<exists>i. j \<le> i \<and> int (rnd (n + 2 * i + 1)) mod grid_rows \<noteq> r)"

text \<open>
  A game in play whose snake lies on row \<open>r\<close> with its head at column \<open>x\<close> inside
  the grid, heading right with no turn pending: the states of the straight run to the
  right wall.
\<close>

definition on_row_heading_right :: "int \<Rightarrow> int \<Rightarrow> int \<Rightarrow> int \<Rightarrow> SnakeGame \<Rightarrow> bool" where
  "on_row_heading_right grid_cols grid_rows r x s =
     (state s = PLAYING \<and> direction s = RIGHT \<and> next_direction s = RIGHT \<and>
      0 \<le> x \<and> x < grid_cols \<and> 0 \<le> r \<and> r < grid_rows \<and>
      (\<exists>rest. snake s = (x, r) # rest) \<and>
      (\<forall>c \<in> set (snake s). snd c = r \<and> fst c \<le> x))"

section \<open>Direction vocabulary of the specification\<close>

text \<open>The opposite pairs: UP/DOWN and LEFT/RIGHT.\<close>

fun opposite :: "Direction \<Rightarrow> Direction" where
  "opposite UP = DOWN"
| "opposite DOWN = UP"
| "opposite LEFT = RIGHT"
| "opposite RIGHT = LEFT"

text \<open>
  The specification's intent derivation from the offsets \<open>dx\<close>, \<open>dy\<close> of the smoothed
  position to the head's centre, with threshold \<open>T\<close>: no intent inside the band, else
  the dominant axis, the vertical one on a tie.
\<close>

definition spec_intent :: "int \<Rightarrow> int \<Rightarrow> int \<Rightarrow> Direction option" where
  "spec_intent T dx dy =
     (if max \<bar>dx\<bar> \<bar>dy\<bar> \<le> T then None
      else if \<bar>dx\<bar> > \<bar>dy\<bar> then Some (if dx > 0 then RIGHT else LEFT)
      else Some (if dy > 0 then DOWN else UP))"

section \<open>Position smoothing (hand\_tracker.py)\<close>

text \<open>
  \<^verbatim>\<open>deque(maxlen=...)\<close> raises on a negative bound; \<^verbatim>\<open>append\<close> on a bounded deque
  adds at the right and, once the bound is exceeded, drops the leftmost element.
\<close>

definition new_position_history :: "GameConfig \<Rightarrow> py_error + (int \<times> int) list" where
  "new_position_history cfg =
     (if GESTURE_SMOOTHING_WINDOW cfg < 0 then Inl ValueError else Inr [])"

definition deque_append :: "int \<Rightarrow> 'a list \<Rightarrow> 'a \<Rightarrow> 'a list" where
  "deque_append maxlen d x =
     (let d' = d @ [x] in if int (length d') > maxlen then tl d' else d')"

text \<open>
  The part of \<^verbatim>\<open>detect_hand\<close> that touches the history: the vision library yields a
  clamped position or nothing, and only a position is appended.
\<close>

definition detect_hand :: "GameConfig \<Rightarrow> (int \<times> int) option \<Rightarrow> (int \<times> int) list \<Rightarrow> (int \<times> int) list" where
  "detect_hand cfg detection position_history =
     (case detection of
        None \<Rightarrow> position_history
      | Some position \<Rightarrow> deque_append (GESTURE_SMOOTHING_WINDOW cfg) position_history position)"

fun detect_hands :: "GameConfig \<Rightarrow> (int \<times> int) option list \<Rightarrow> (int \<times> int) list \<Rightarrow> (int \<times> int) list" where
  "detect_hands cfg [] position_history = position_history"
| "detect_hands cfg (d # ds) position_history = detect_hands cfg ds (detect_hand cfg d position_history)"

text \<open>
  Python's \<^verbatim>\<open>int()\<close> of a quotient: rounding towards zero. The quotient is a float in
  the source and exact here; for pixel coordinates and a short window the two agree.
\<close>

definition py_int :: "rat \<Rightarrow> int" where
  "py_int q = (if q \<ge> 0 then \<lfloor>q\<rfloor> else \<lceil>q\<rceil>)"

text \<open>\<^verbatim>\<open>get_smoothed_position\<close>.\<close>

definition get_smoothed_position :: "(int \<times> int) list \<Rightarrow> (int \<times> int) option" where
  "get_smoothed_position position_history =
     (if position_history = [] then None
      else
        (let positions = position_history;
             avg_x = of_int (sum_list (map fst positions)) / of_int (int (length positions));
             avg_y = of_int (sum_list (map snd positions)) / of_int (int (length positions))
         in Some (py_int avg_x, py_int avg_y)))"

text \<open>
  The specification's smoother: the history is the last \<open>capacity\<close> pushed positions,
  the estimate their component-wise mean with the fraction cut off.
\<close>

definition spec_history :: "nat \<Rightarrow> 'a list \<Rightarrow> 'a list" where
  "spec_history capacity pushed = drop (length pushed - capacity) pushed"

definition truncated_mean :: "int list \<Rightarrow> int" where
  "truncated_mean vs = sgn (sum_list vs) * (\<bar>sum_list vs\<bar> div int (length vs))"

definition spec_estimate :: "nat \<Rightarrow> (int \<times> int) list \<Rightarrow> (int \<times> int) option" where
  "spec_estimate capacity pushed =
     (let h = spec_history capacity pushed
      in if h = [] then None
         else Some (truncated_mean (map fst h), truncated_mean (map snd h)))"

section \<open>The pause gesture in the main loop (snake\_game.py)\<close>

record SnakeGameApp =
  game :: SnakeGame
  pause_gesture_cooldown :: int

text \<open>
  The two statements of \<^verbatim>\<open>run\<close> that handle the fist: the flag says whether
  \<^verbatim>\<open>toggle_pause\<close> was called in this pass.
\<close>

definition pause_gesture :: "bool \<Rightarrow> SnakeGameApp \<Rightarrow> bool \<times> SnakeGameApp" where
  "pause_gesture is_fist app =
     (let (toggled, app1) =
            (if is_fist \<and> pause_gesture_cooldown app \<le> 0
             then (True, app\<lparr> game := toggle_pause (game app), pause_gesture_cooldown := 30 \<rparr>)
             else (False, app));
          app2 = (if pause_gesture_cooldown app1 > 0
                  then app1\<lparr> pause_gesture_cooldown := pause_gesture_cooldown app1 - 1 \<rparr>
                  else app1)
      in (toggled, app2))"

text \<open>
  Passes of the loop numbered from \<open>t\<close>, one fist flag each; \<open>rest t\<close> is what the rest
  of pass \<open>t\<close> (direction, update, keyboard) does to the game. The result lists the
  passes in which \<^verbatim>\<open>toggle_pause\<close> was called.
\<close>

fun toggle_ticks ::
  "(nat \<Rightarrow> SnakeGame \<Rightarrow> SnakeGame) \<Rightarrow> nat \<Rightarrow> bool list \<Rightarrow> SnakeGameApp \<Rightarrow> nat list" where
  "toggle_ticks rest t [] app = []"
| "toggle_ticks rest t (is_fist # flags) app =
     (let (toggled, app1) = pause_gesture is_fist app;
          app2 = app1\<lparr> game := rest t (game app1) \<rparr>
      in (if toggled then [t] else []) @ toggle_ticks rest (Suc t) flags app2)"

section \<open>Example inputs\<close>

text \<open>
  A random source whose first two draws put the first food right in front of the
  snake on the default grid, and two states of a game on that grid: one step before
  the right wall, and after the collision.
\<close>

definition example_source :: random_source where
  "example_source n = 24 * n + 21"

definition example_at_wall :: SnakeGame where
  "example_at_wall =
     \<lparr> state = PLAYING, score = 10, high_score = 0, frame_count = 19,
       speed_multiplier = 6 / 5, snake = [(39, 15), (38, 15), (37, 15), (36, 15)],
       direction = RIGHT, next_direction = RIGHT, food = (29, 3), draws = 4 \<rparr>"

definition example_game_over :: SnakeGame where
  "example_game_over =
     \<lparr> state = GAME_OVER, score = 10, high_score = 10, frame_count = 20,
       speed_multiplier = 6 / 5, snake = [(39, 15), (38, 15), (37, 15), (36, 15)],
       direction = RIGHT, next_direction = RIGHT, food = (29, 3), draws = 4 \<rparr>"

text \<open>States of the run that the example source gives on the default grid.\<close>

definition example_started :: SnakeGame where
  "example_started =
     \<lparr> state = PLAYING, score = 0, high_score = 0, frame_count = 0,
       speed_multiplier = 1, snake = [(20, 15), (19, 15), (18, 15)],
       direction = RIGHT, next_direction = RIGHT, food = (21, 15), draws = 2 \<rparr>"

definition example_after_eat :: SnakeGame where
  "example_after_eat =
     \<lparr> state = PLAYING, score = 10, high_score = 0, frame_count = 1,
       speed_multiplier = 6 / 5, snake = [(21, 15), (20, 15), (19, 15), (18, 15)],
       direction = RIGHT, next_direction = RIGHT, food = (29, 3), draws = 4 \<rparr>"

definition example_calls :: "game_call list" where
  "example_calls =
     [StartGame, Update, TogglePause, Update, UpdateDirection (Some (0, 0)), TogglePause,
      UpdateDirection (Some (450, 10)), Update]"

definition example_after_turn :: SnakeGame where
  "example_after_turn =
     \<lparr> state = PLAYING, score = 10, high_score = 0, frame_count = 2,
       speed_multiplier = 6 / 5, snake = [(21, 14), (21, 15), (20, 15), (19, 15)],
       direction = UP, next_direction = UP, food = (29, 3), draws = 4 \<rparr>"

definition example_after_reset :: SnakeGame where
  "example_after_reset =
     \<lparr> state = MENU, score = 0, high_score = 10, frame_count = 0,
       speed_multiplier = 1, snake = [(20, 15), (19, 15), (18, 15)],
       direction = RIGHT, next_direction = RIGHT, food = (37, 21), draws = 6 \<rparr>"

definition example_restarted :: SnakeGame where
  "example_restarted = example_after_reset \<lparr> state := PLAYING \<rparr>"

text \<open>
  A grid of three columns and one row, a random source that always draws the same
  number, and the game on that grid after \<^verbatim>\<open>reset_game\<close> and \<^verbatim>\<open>start_game\<close>: the
  only free cell, where the food is, lies right in front of the snake.
\<close>

definition example_narrow_config :: GameConfig where
  "example_narrow_config = default_config\<lparr> WINDOW_WIDTH := 60, WINDOW_HEIGHT := 20 \<rparr>"

definition example_constant_source :: random_source where
  "example_constant_source n = 2"

definition example_narrow_started :: SnakeGame where
  "example_narrow_started =
     \<lparr> state = PLAYING, score = 0, high_score = 0, frame_count = 0,
       speed_multiplier = 1, snake = [(1, 0), (0, 0), (-1, 0)],
       direction = RIGHT, next_direction = RIGHT, food = (2, 0), draws = 2 \<rparr>"

section \<open>Properties\<close>

lemma get_grid_dimensions_default: "get_grid_dimensions default_config = Inr (40, 30)"
  by (simp add: get_grid_dimensions_def default_config_def)

subsection \<open>What one call does\<close>

lemma spawn_food_loop_result:
  assumes "spawn_food_loop rnd grid_cols grid_rows cells n = Some r"
  shows "case r of Inl e \<Rightarrow> True
         | Inr (c, m) \<Rightarrow> c \<notin> set cells \<and> 0 \<le> fst c \<and> fst c < grid_cols \<and>
                          0 \<le> snd c \<and> snd c < grid_rows \<and> n < m"
proof (rule spawn_food_loop.raw_induct
    [OF _ assms, where P = "\<lambda>rnd grid_cols grid_rows cells n r. case r of Inl e \<Rightarrow> True
         | Inr (c, m) \<Rightarrow> c \<notin> set cells \<and> 0 \<le> fst c \<and> fst c < grid_cols \<and>
                          0 \<le> snd c \<and> snd c < grid_rows \<and> n < m"], goal_cases)
  case (1 loop rnd grid_cols grid_rows cells n r)
  show ?case
  proof (cases "randint rnd n 0 (grid_cols - 1)")
    case (Inl e)
    with 1(2) show ?thesis by auto
  next
    case x: (Inr x)
    show ?thesis
    proof (cases "randint rnd (n + 1) 0 (grid_rows - 1)")
      case (Inl e)
      with 1(2) x show ?thesis by auto
    next
      case y: (Inr y)
      show ?thesis
      proof (cases "(x, y) \<in> set cells")
        case True
        with 1(2) x y have "loop rnd grid_cols grid_rows cells (n + 2) = Some r" by simp
        from 1(1) [OF this] show ?thesis by (auto split: sum.splits)
      next
        case False
        with 1(2) x y have r: "r = Inr ((x, y), n + 2)" by simp
        from x y have "0 \<le> x \<and> x < grid_cols \<and> 0 \<le> y \<and> y < grid_rows"
          by (auto simp: randint_def split: if_splits)
        with r False show ?thesis by simp
      qed
    qed
  qed
qed

lemma spawn_food_free:
  assumes "spawn_food cfg rnd s = Some (Inr (c, m))"
  shows "c \<notin> set (snake s)"
proof -
  from assms obtain grid_cols grid_rows where
    "spawn_food_loop rnd grid_cols grid_rows (snake s) (draws s) = Some (Inr (c, m))"
    by (auto simp: spawn_food_def split: sum.splits)
  from spawn_food_loop_result [OF this] show ?thesis by simp
qed

lemma update_not_playing: "state s \<noteq> PLAYING \<Longrightarrow> update cfg rnd s = Some (Inr s)"
  by (simp add: update_def)

lemma update_playing_cases:
  assumes ret: "update cfg rnd s = Some (Inr s')" and playing: "state s = PLAYING"
  shows "(state s' = GAME_OVER \<and> snake s' = snake s \<and> food s' = food s \<and> score s' = score s \<and>
            high_score s' = max (score s) (high_score s))
       \<or> (state s' = PLAYING \<and> snake s' = food s # snake s \<and> food s \<notin> set (snake s) \<and>
            score s' = score s + FOOD_POINTS cfg \<and> food s' \<notin> set (snake s') \<and>
            high_score s' = high_score s)
       \<or> (state s' = PLAYING \<and> (\<exists>h. h \<noteq> food s \<and> h \<notin> set (snake s) \<and> snake s' = butlast (h # snake s)) \<and>
            food s' = food s \<and> score s' = score s \<and> high_score s' = high_score s)"
proof -
  define s1 where "s1 = s\<lparr> frame_count := frame_count s + 1 \<rparr>"
  define s2 where "s2 =
    (if (fst (direction_value (next_direction s1)) * -1, snd (direction_value (next_direction s1)) * -1)
        \<noteq> direction_value (direction s1)
     then s1\<lparr> direction := next_direction s1 \<rparr> else s1)"
  have upd0: "update cfg rnd s =
     (case snake s2 of
        [] \<Rightarrow> Some (Inl IndexError)
      | head # _ \<Rightarrow>
          (let new_head = (fst head + fst (direction_value (direction s2)),
                           snd head + snd (direction_value (direction s2)))
           in case get_grid_dimensions cfg of
                Inl e \<Rightarrow> Some (Inl e)
              | Inr (grid_cols, grid_rows) \<Rightarrow>
                  if fst new_head < 0 \<or> fst new_head \<ge> grid_cols \<or>
                     snd new_head < 0 \<or> snd new_head \<ge> grid_rows
                  then Some (Inr (update_high_score (s2\<lparr> state := GAME_OVER \<rparr>)))
                  else if new_head \<in> set (snake s2)
                  then Some (Inr (update_high_score (s2\<lparr> state := GAME_OVER \<rparr>)))
                  else
                    (let s3 = s2\<lparr> snake := new_head # snake s2 \<rparr>
                     in if new_head = food s3
                        then
                          (let s4 = s3\<lparr> score := score s3 + FOOD_POINTS cfg \<rparr>
                           in case spawn_food cfg rnd s4 of
                                None \<Rightarrow> None
                              | Some (Inl e) \<Rightarrow> Some (Inl e)
                              | Some (Inr (f, n)) \<Rightarrow>
                                  Some (Inr (increase_speed (s4\<lparr> food := f, draws := n \<rparr>))))
                        else Some (Inr (s3\<lparr> snake := butlast (snake s3) \<rparr>)))))"
    unfolding update_def s2_def s1_def Let_def by (simp only: playing simp_thms if_False)
  have f2: "snake s2 = snake s" "food s2 = food s" "score s2 = score s"
    "high_score s2 = high_score s" "state s2 = PLAYING" "draws s2 = draws s"
    using playing by (simp_all add: s2_def s1_def)
  have over: "state t = GAME_OVER \<and> snake t = snake s \<and> food t = food s \<and> score t = score s \<and>
      high_score t = max (score s) (high_score s)"
    if "t = update_high_score (s2\<lparr> state := GAME_OVER \<rparr>)" for t
    using that f2 by (simp add: update_high_score_def)
  obtain head rest where sn: "snake s2 = head # rest"
    using ret upd0 by (cases "snake s2") auto
  obtain grid_cols grid_rows where dims: "get_grid_dimensions cfg = Inr (grid_cols, grid_rows)"
    using ret upd0 sn
    by (cases "get_grid_dimensions cfg") (auto simp: Let_def)
  define new_head where "new_head = (fst head + fst (direction_value (direction s2)),
                                 snd head + snd (direction_value (direction s2)))"
  note run = ret [unfolded upd0 sn dims list.case sum.case prod.case Let_def, folded new_head_def]
  show ?thesis
  proof (cases "fst new_head < 0 \<or> fst new_head \<ge> grid_cols \<or> snd new_head < 0 \<or> snd new_head \<ge> grid_rows
      \<or> new_head \<in> set (snake s2)")
    case True
    with run have "s' = update_high_score (s2\<lparr> state := GAME_OVER \<rparr>)"
      by (simp add: sn split: if_splits)
    from over [OF this] show ?thesis by simp
  next
    case False
    show ?thesis
    proof (cases "new_head = food s2")
      case eat: True
      from False eat run obtain f n where
        sp: "spawn_food cfg rnd (s2\<lparr> snake := new_head # snake s2, score := score s2 + FOOD_POINTS cfg \<rparr>)
              = Some (Inr (f, n))"
        and s': "s' = increase_speed (s2\<lparr> snake := new_head # snake s2,
                    score := score s2 + FOOD_POINTS cfg, food := f, draws := n \<rparr>)"
        by (auto simp: sn split: option.splits sum.splits)
      from spawn_food_free [OF sp] have "f \<notin> set (new_head # snake s)" by (simp add: f2)
      with s' False eat f2 show ?thesis by (simp add: increase_speed_def)
    next
      case noeat: False
      with False run have "s' = s2\<lparr> snake := butlast (new_head # snake s2) \<rparr>"
        by (simp add: sn)
      then have "state s' = PLAYING" "snake s' = butlast (new_head # snake s)" "food s' = food s"
        "score s' = score s" "high_score s' = high_score s"
        by (simp_all add: f2)
      moreover have "new_head \<noteq> food s \<and> new_head \<notin> set (snake s)"
        using False noeat by (simp add: f2)
      ultimately show ?thesis by blast
    qed
  qed
qed

lemma update_playing_direction:
  assumes ret: "update cfg rnd s = Some (Inr s')" and playing: "state s = PLAYING"
  shows "direction s' =
           (if (fst (direction_value (next_direction s)) * -1,
                snd (direction_value (next_direction s)) * -1) \<noteq> direction_value (direction s)
            then next_direction s else direction s)
         \<and> next_direction s' = next_direction s"
proof -
  define s1 where "s1 = s\<lparr> frame_count := frame_count s + 1 \<rparr>"
  define s2 where "s2 =
    (if (fst (direction_value (next_direction s1)) * -1, snd (direction_value (next_direction s1)) * -1)
        \<noteq> direction_value (direction s1)
     then s1\<lparr> direction := next_direction s1 \<rparr> else s1)"
  have upd0: "update cfg rnd s =
     (case snake s2 of
        [] \<Rightarrow> Some (Inl IndexError)
      | head # _ \<Rightarrow>
          (let new_head = (fst head + fst (direction_value (direction s2)),
                           snd head + snd (direction_value (direction s2)))
           in case get_grid_dimensions cfg of
                Inl e \<Rightarrow> Some (Inl e)
              | Inr (grid_cols, grid_rows) \<Rightarrow>
                  if fst new_head < 0 \<or> fst new_head \<ge> grid_cols \<or>
                     snd new_head < 0 \<or> snd new_head \<ge> grid_rows
                  then Some (Inr (update_high_score (s2\<lparr> state := GAME_OVER \<rparr>)))
                  else if new_head \<in> set (snake s2)
                  then Some (Inr (update_high_score (s2\<lparr> state := GAME_OVER \<rparr>)))
                  else
                    (let s3 = s2\<lparr> snake := new_head # snake s2 \<rparr>
                     in if new_head = food s3
                        then
                          (let s4 = s3\<lparr> score := score s3 + FOOD_POINTS cfg \<rparr>
                           in case spawn_food cfg rnd s4 of
                                None \<Rightarrow> None
                              | Some (Inl e) \<Rightarrow> Some (Inl e)
                              | Some (Inr (f, n)) \<Rightarrow>
                                  Some (Inr (increase_speed (s4\<lparr> food := f, draws := n \<rparr>))))
                        else Some (Inr (s3\<lparr> snake := butlast (snake s3) \<rparr>)))))"
    unfolding update_def s2_def s1_def Let_def by (simp only: playing simp_thms if_False)
  have f2: "direction s2 =
           (if (fst (direction_value (next_direction s)) * -1,
                snd (direction_value (next_direction s)) * -1) \<noteq> direction_value (direction s)
            then next_direction s else direction s)"
    "next_direction s2 = next_direction s"
    by (simp_all add: s2_def s1_def)
  have over: "direction t = direction s2 \<and> next_direction t = next_direction s2"
    if "t = update_high_score (s2\<lparr> state := GAME_OVER \<rparr>)" for t
    using that by (simp add: update_high_score_def)
  obtain head rest where sn: "snake s2 = head # rest"
    using ret upd0 by (cases "snake s2") auto
  obtain grid_cols grid_rows where dims: "get_grid_dimensions cfg = Inr (grid_cols, grid_rows)"
    using ret upd0 sn
    by (cases "get_grid_dimensions cfg") (auto simp: Let_def)
  define new_head where "new_head = (fst head + fst (direction_value (direction s2)),
                                 snd head + snd (direction_value (direction s2)))"
  note run = ret [unfolded upd0 sn dims list.case sum.case prod.case Let_def, folded new_head_def]
  show ?thesis
  proof (cases "fst new_head < 0 \<or> fst new_head \<ge> grid_cols \<or> snd new_head < 0 \<or> snd new_head \<ge> grid_rows
      \<or> new_head \<in> set (snake s2)")
    case True
    with run have "s' = update_high_score (s2\<lparr> state := GAME_OVER \<rparr>)"
      by (simp add: sn split: if_splits)
    from over [OF this] f2 show ?thesis by simp
  next
    case False
    show ?thesis
    proof (cases "new_head = food s2")
      case eat: True
      from False eat run obtain f n where
        "s' = increase_speed (s2\<lparr> snake := new_head # snake s2,
                    score := score s2 + FOOD_POINTS cfg, food := f, draws := n \<rparr>)"
        by (auto simp: sn split: option.splits sum.splits)
      with f2 show ?thesis by (simp add: increase_speed_def)
    next
      case noeat: False
      with False run have "s' = s2\<lparr> snake := butlast (new_head # snake s2) \<rparr>"
        by (simp add: sn)
      with f2 show ?thesis by simp
    qed
  qed
qed

lemma reset_game_result:
  assumes "reset_game cfg rnd s = Some (Inr s')"
  shows "state s' = MENU \<and> score s' = 0 \<and> length (snake s') = 3 \<and> food s' \<notin> set (snake s') \<and>
         high_score s' = high_score s \<and> direction s' = RIGHT \<and> next_direction s' = RIGHT"
proof -
  from assms obtain grid_cols grid_rows where dims: "get_grid_dimensions cfg = Inr (grid_cols, grid_rows)"
    by (cases "get_grid_dimensions cfg") (auto simp: reset_game_def)
  define s1 where "s1 = s\<lparr> snake := [(grid_cols div 2, grid_rows div 2),
      (grid_cols div 2 - 1, grid_rows div 2), (grid_cols div 2 - 2, grid_rows div 2)],
      direction := RIGHT, next_direction := RIGHT \<rparr>"
  from assms dims obtain f n where sp: "spawn_food cfg rnd s1 = Some (Inr (f, n))"
    and s': "s' = s1\<lparr> food := f, draws := n, score := 0, frame_count := 0,
                                  speed_multiplier := 1, state := MENU \<rparr>"
    by (auto simp: reset_game_def Let_def s1_def split: option.splits sum.splits)
  from spawn_food_free [OF sp] s' show ?thesis by (simp add: s1_def)
qed

lemma start_game_fields:
  "snake (start_game s) = snake s" "food (start_game s) = food s" "score (start_game s) = score s"
  "high_score (start_game s) = high_score s"
  by (simp_all add: start_game_def)

lemma toggle_pause_fields:
  "snake (toggle_pause s) = snake s" "food (toggle_pause s) = food s" "score (toggle_pause s) = score s"
  "high_score (toggle_pause s) = high_score s"
  by (simp_all add: toggle_pause_def)

lemma update_direction_fields:
  "snake (update_direction cfg hp s) = snake s" "food (update_direction cfg hp s) = food s"
  "score (update_direction cfg hp s) = score s" "high_score (update_direction cfg hp s) = high_score s"
  "state (update_direction cfg hp s) = state s" "direction (update_direction cfg hp s) = direction s"
  by (simp_all add: update_direction_def Let_def split: option.splits list.splits)

lemma exec_calls_invariant:
  assumes step: "\<And>c s s'. I s \<Longrightarrow> exec_call cfg rnd c s = Some (Inr s') \<Longrightarrow> I s'"
    and "I s" and "exec_calls cfg rnd cs s = Some (Inr s')"
  shows "I s'"
  using assms(2,3)
proof (induction cs arbitrary: s)
  case Nil
  then show ?case by simp
next
  case (Cons c cs)
  from Cons.prems(2) obtain t where t: "exec_call cfg rnd c s = Some (Inr t)"
    and rest: "exec_calls cfg rnd cs t = Some (Inr s')"
    by (auto split: option.splits sum.splits)
  from step [OF Cons.prems(1) t] rest show ?case by (rule Cons.IH)
qed

lemma update_food_free:
  assumes "update cfg rnd s = Some (Inr s')" and "food s \<notin> set (snake s)"
  shows "food s' \<notin> set (snake s')"
proof (cases "state s = PLAYING")
  case True
  from update_playing_cases [OF assms(1) True]
  consider (over) "snake s' = snake s" "food s' = food s"
    | (eat) "food s' \<notin> set (snake s')"
    | (move) h where "h \<noteq> food s" "snake s' = butlast (h # snake s)" "food s' = food s"
    by blast
  then show ?thesis
  proof cases
    case over
    with assms(2) show ?thesis by simp
  next
    case eat
    then show ?thesis .
  next
    case move
    have "food s \<notin> set (h # snake s)" using move(1) assms(2) by auto
    then have "food s \<notin> set (butlast (h # snake s))" by (blast dest: in_set_butlastD)
    with move show ?thesis by simp
  qed
next
  case False
  with assms show ?thesis by (simp add: update_not_playing)
qed

lemma exec_call_food_free:
  assumes "exec_call cfg rnd c s = Some (Inr s')" and "food s \<notin> set (snake s)"
  shows "food s' \<notin> set (snake s')"
proof (cases c)
  case ResetGame
  with assms(1) show ?thesis by (auto dest: reset_game_result)
next
  case Update
  with assms show ?thesis by (auto dest: update_food_free)
qed (use assms in \<open>auto simp: start_game_fields toggle_pause_fields update_direction_fields\<close>)

text \<open>
  C2. In every state reached from \<^verbatim>\<open>reset_game\<close> by calls of \<^verbatim>\<open>start_game\<close>,
  \<^verbatim>\<open>toggle_pause\<close>, \<^verbatim>\<open>update_direction\<close>, \<^verbatim>\<open>update\<close> (and further resets), each of
  which returned, the food cell is not one of the snake's cells.
\<close>

theorem food_never_on_snake:
  assumes "exec_calls cfg rnd (ResetGame # calls) s = Some (Inr s')"
  shows "food s' \<notin> set (snake s')"
proof -
  from assms obtain t where t: "reset_game cfg rnd s = Some (Inr t)"
    and rest: "exec_calls cfg rnd calls t = Some (Inr s')"
    by (auto split: option.splits sum.splits)
  from reset_game_result [OF t] have "food t \<notin> set (snake t)" by simp
  show ?thesis
  proof (rule exec_calls_invariant [where I = "\<lambda>s. food s \<notin> set (snake s)", OF _ _ rest])
    show "food t \<notin> set (snake t)" by fact
  qed (rule exec_call_food_free)
qed

theorem food_never_on_snake_witness:
  "exec_calls default_config example_source (ResetGame # example_calls) (initial_attributes 0 0)
     = Some (Inr example_after_turn)
   \<and> food example_after_turn \<notin> set (snake example_after_turn)"
proof -
  have run: "exec_calls default_config example_source (ResetGame # example_calls)
      (initial_attributes 0 0) = Some (Inr example_after_turn)"
    by code_simp
  from food_never_on_snake [OF run] run show ?thesis by simp
qed

text \<open>
  C6. A call of \<^verbatim>\<open>update\<close> in the PLAYING state that returns leaves the snake's length
  as it was (food and score untouched: a plain move or a collision), or makes it
  exactly one longer (the old food cell is the new head and the score grew by
  \<^verbatim>\<open>FOOD_POINTS\<close>).
\<close>

theorem step_changes_length_by_at_most_one:
  assumes "update cfg rnd s = Some (Inr s')" and "state s = PLAYING"
  shows "(length (snake s') = length (snake s) \<and> food s' = food s \<and> score s' = score s)
       \<or> (length (snake s') = length (snake s) + 1 \<and> snake s' = food s # snake s \<and>
            score s' = score s + FOOD_POINTS cfg)"
proof -
  from update_playing_cases [OF assms]
  consider (over) "snake s' = snake s" "food s' = food s" "score s' = score s"
    | (eat) "snake s' = food s # snake s" "score s' = score s + FOOD_POINTS cfg"
    | (move) h where "snake s' = butlast (h # snake s)" "food s' = food s" "score s' = score s"
    by blast
  then show ?thesis
  proof cases
    case move
    have "length (butlast (h # snake s)) = length (snake s)" by simp
    with move show ?thesis by simp
  qed simp_all
qed

theorem step_changes_length_by_at_most_one_witness:
  "update default_config example_source example_started = Some (Inr example_after_eat)
   \<and> state example_started = PLAYING
   \<and> ((length (snake example_after_eat) = length (snake example_started) \<and>
        food example_after_eat = food example_started \<and>
        score example_after_eat = score example_started)
      \<or> (length (snake example_after_eat) = length (snake example_started) + 1 \<and>
          snake example_after_eat = food example_started # snake example_started \<and>
          score example_after_eat = score example_started + FOOD_POINTS default_config))"
proof -
  have run: "update default_config example_source example_started = Some (Inr example_after_eat)"
    by code_simp
  have playing: "state example_started = PLAYING"
    by code_simp
  from step_changes_length_by_at_most_one [OF run playing] run playing show ?thesis by simp
qed

lemma update_score_length:
  assumes "update cfg rnd s = Some (Inr s')"
    and "score s = FOOD_POINTS cfg * (int (length (snake s)) - 3)"
  shows "score s' = FOOD_POINTS cfg * (int (length (snake s')) - 3)"
proof (cases "state s = PLAYING")
  case True
  from update_playing_cases [OF assms(1) True]
  consider (over) "snake s' = snake s" "score s' = score s"
    | (eat) "snake s' = food s # snake s" "score s' = score s + FOOD_POINTS cfg"
    | (move) h where "snake s' = butlast (h # snake s)" "score s' = score s"
    by blast
  then show ?thesis
  proof cases
    case move
    have "length (butlast (h # snake s)) = length (snake s)" by simp
    with move assms(2) show ?thesis by simp
  qed (use assms(2) in \<open>simp_all add: algebra_simps\<close>)
next
  case False
  with assms show ?thesis by (simp add: update_not_playing)
qed

lemma exec_call_score_length:
  assumes "exec_call cfg rnd c s = Some (Inr s')"
    and "score s = FOOD_POINTS cfg * (int (length (snake s)) - 3)"
  shows "score s' = FOOD_POINTS cfg * (int (length (snake s')) - 3)"
proof (cases c)
  case ResetGame
  with assms(1) show ?thesis by (auto dest: reset_game_result)
next
  case Update
  with assms show ?thesis by (auto dest: update_score_length)
qed (use assms in \<open>auto simp: start_game_fields toggle_pause_fields update_direction_fields\<close>)

text \<open>
  C10. In every state reached from \<^verbatim>\<open>reset_game\<close> by any sequence of calls, the
  score is \<^verbatim>\<open>FOOD_POINTS\<close> times the snake's length minus three, in GAME\_OVER too.
\<close>

theorem score_counts_food_eaten:
  assumes "exec_calls cfg rnd (ResetGame # calls) s = Some (Inr s')"
  shows "score s' = FOOD_POINTS cfg * (int (length (snake s')) - 3)"
proof -
  from assms obtain t where t: "reset_game cfg rnd s = Some (Inr t)"
    and rest: "exec_calls cfg rnd calls t = Some (Inr s')"
    by (auto split: option.splits sum.splits)
  from reset_game_result [OF t] have init: "score t = FOOD_POINTS cfg * (int (length (snake t)) - 3)"
    by simp
  show ?thesis
  proof (rule exec_calls_invariant
      [where I = "\<lambda>s. score s = FOOD_POINTS cfg * (int (length (snake s)) - 3)", OF _ _ rest])
    show "score t = FOOD_POINTS cfg * (int (length (snake t)) - 3)" by fact
  qed (rule exec_call_score_length)
qed

theorem score_counts_food_eaten_witness:
  "exec_calls default_config example_source (ResetGame # example_calls) (initial_attributes 0 0)
     = Some (Inr example_after_turn)
   \<and> score example_after_turn
       = FOOD_POINTS default_config * (int (length (snake example_after_turn)) - 3)"
proof -
  have run: "exec_calls default_config example_source (ResetGame # example_calls)
      (initial_attributes 0 0) = Some (Inr example_after_turn)"
    by code_simp
  from score_counts_food_eaten [OF run] run show ?thesis by simp
qed

lemma update_high_score_mono:
  assumes "update cfg rnd s = Some (Inr s')"
  shows "high_score s \<le> high_score s'"
proof (cases "state s = PLAYING")
  case True
  from update_playing_cases [OF assms True] show ?thesis by auto
next
  case False
  with assms show ?thesis by (simp add: update_not_playing)
qed

lemma exec_call_high_score_mono:
  assumes "exec_call cfg rnd c s = Some (Inr s')"
  shows "high_score s \<le> high_score s'"
proof (cases c)
  case ResetGame
  with assms(1) show ?thesis by (auto dest: reset_game_result)
next
  case Update
  with assms show ?thesis by (auto dest: update_high_score_mono)
qed (use assms in \<open>auto simp: start_game_fields toggle_pause_fields update_direction_fields\<close>)

lemma exec_calls_high_score_mono:
  "exec_calls cfg rnd calls s = Some (Inr s') \<Longrightarrow> high_score s \<le> high_score s'"
proof (induction calls arbitrary: s)
  case Nil
  then show ?case by simp
next
  case (Cons c cs)
  from Cons.prems obtain t where t: "exec_call cfg rnd c s = Some (Inr t)"
    and rest: "exec_calls cfg rnd cs t = Some (Inr s')"
    by (auto split: option.splits sum.splits)
  from exec_call_high_score_mono [OF t] Cons.IH [OF rest] show ?case by simp
qed

text \<open>
  C8. On the step that ends a game the score stays the final score \<open>S\<close> and the high
  score becomes \<open>max S H\<close> for the prior high score \<open>H\<close>; and no sequence of calls,
  \<^verbatim>\<open>reset_game\<close> included, lowers the high score.
\<close>

theorem high_score_is_max_and_never_decreases:
  "(update cfg rnd s = Some (Inr s') \<and> state s = PLAYING \<and> state s' = GAME_OVER
      \<longrightarrow> score s' = score s \<and> high_score s' = max (score s') (high_score s))
   \<and> (exec_calls cfg rnd calls s = Some (Inr s') \<longrightarrow> high_score s \<le> high_score s')"
proof (intro conjI impI)
  assume a: "update cfg rnd s = Some (Inr s') \<and> state s = PLAYING \<and> state s' = GAME_OVER"
  then have "update cfg rnd s = Some (Inr s')" "state s = PLAYING" by simp_all
  from update_playing_cases [OF this] a
  show "score s' = score s" "high_score s' = max (score s') (high_score s)" by auto
next
  assume "exec_calls cfg rnd calls s = Some (Inr s')"
  then show "high_score s \<le> high_score s'" by (rule exec_calls_high_score_mono)
qed

theorem high_score_is_max_and_never_decreases_witness:
  "update default_config example_source example_at_wall = Some (Inr example_game_over)
   \<and> state example_at_wall = PLAYING \<and> state example_game_over = GAME_OVER
   \<and> score example_game_over = score example_at_wall
   \<and> high_score example_game_over = max (score example_game_over) (high_score example_at_wall)
   \<and> exec_calls default_config example_source [ResetGame, StartGame] example_game_over
       = Some (Inr example_restarted)
   \<and> high_score example_game_over \<le> high_score example_restarted"
proof -
  have over: "update default_config example_source example_at_wall = Some (Inr example_game_over)"
    by code_simp
  have states: "state example_at_wall = PLAYING" "state example_game_over = GAME_OVER"
    by code_simp+
  have again: "exec_calls default_config example_source [ResetGame, StartGame] example_game_over
      = Some (Inr example_restarted)"
    by code_simp
  from high_score_is_max_and_never_decreases
         [of default_config example_source example_at_wall example_game_over]
       high_score_is_max_and_never_decreases
         [of default_config example_source example_game_over example_restarted
             "[ResetGame, StartGame]"]
       over states again
  show ?thesis by simp
qed

lemma exec_call_game_over:
  assumes "state s = GAME_OVER" and "c \<noteq> ResetGame"
  shows "exec_call cfg rnd c s = Some (Inr s)"
  using assms
  by (cases c) (simp_all add: start_game_def toggle_pause_def update_direction_def update_not_playing
      split: option.splits list.splits)

lemma exec_calls_game_over:
  "state s = GAME_OVER \<Longrightarrow> ResetGame \<notin> set calls \<Longrightarrow> exec_calls cfg rnd calls s = Some (Inr s)"
proof (induction calls)
  case Nil
  show ?case by simp
next
  case (Cons c cs)
  from Cons.prems have "c \<noteq> ResetGame" by auto
  with Cons.prems have "exec_call cfg rnd c s = Some (Inr s)" by (simp add: exec_call_game_over)
  with Cons show ?case by simp
qed

text \<open>
  C9. From GAME\_OVER, any sequence of \<^verbatim>\<open>start_game\<close>, \<^verbatim>\<open>toggle_pause\<close>,
  \<^verbatim>\<open>update_direction\<close> and \<^verbatim>\<open>update\<close> calls returns and changes nothing, so the state
  stays GAME\_OVER; \<^verbatim>\<open>update\<close> outside PLAYING changes nothing; and \<^verbatim>\<open>reset_game\<close>
  leads from GAME\_OVER to MENU.
\<close>

theorem game_over_is_absorbing:
  "(state s = GAME_OVER \<and> ResetGame \<notin> set calls \<longrightarrow> exec_calls cfg rnd calls s = Some (Inr s))
   \<and> (state s \<noteq> PLAYING \<longrightarrow> update cfg rnd s = Some (Inr s))
   \<and> (state s = GAME_OVER \<and> reset_game cfg rnd s = Some (Inr s') \<longrightarrow> state s' = MENU)"
  by (auto simp: exec_calls_game_over update_not_playing dest: reset_game_result)

theorem game_over_is_absorbing_witness:
  "state example_game_over = GAME_OVER
   \<and> ResetGame \<notin> set [StartGame, TogglePause, UpdateDirection (Some (0, 0)), Update]
   \<and> exec_calls default_config example_source
        [StartGame, TogglePause, UpdateDirection (Some (0, 0)), Update] example_game_over
       = Some (Inr example_game_over)
   \<and> state example_game_over \<noteq> PLAYING
   \<and> update default_config example_source example_game_over = Some (Inr example_game_over)
   \<and> reset_game default_config example_source example_game_over = Some (Inr example_after_reset)
   \<and> state example_after_reset = MENU"
proof -
  have over: "state example_game_over = GAME_OVER"
    by code_simp
  have reset: "reset_game default_config example_source example_game_over
      = Some (Inr example_after_reset)"
    by code_simp
  from game_over_is_absorbing
         [of example_game_over "[StartGame, TogglePause, UpdateDirection (Some (0, 0)), Update]"
             default_config example_source example_after_reset]
       over reset
  show ?thesis by simp
qed

subsection \<open>Direction changes\<close>

lemma reversed_value [simp]:
  "(- fst (direction_value (opposite d)), - snd (direction_value (opposite d))) = direction_value d"
  by (cases d) simp_all

lemma same_value_not_reversed [simp]:
  "(- fst (direction_value d), - snd (direction_value d)) \<noteq> direction_value d"
  by (cases d) simp_all

lemma spawn_food_next_direction [simp]:
  "spawn_food cfg rnd (s\<lparr> next_direction := i \<rparr>) = spawn_food cfg rnd s"
  by (simp add: spawn_food_def split: sum.splits)

lemma update_high_score_next_direction:
  "update_high_score (s\<lparr> next_direction := i \<rparr>) = (update_high_score s)\<lparr> next_direction := i \<rparr>"
  by (simp add: update_high_score_def)

lemma increase_speed_next_direction:
  "increase_speed (s\<lparr> next_direction := i \<rparr>) = (increase_speed s)\<lparr> next_direction := i \<rparr>"
  by (simp add: increase_speed_def Let_def)

lemma reversal_acts_as_no_turn:
  "update cfg rnd (s\<lparr> next_direction := opposite (direction s) \<rparr>)
     = map_option (map_sum id (\<lambda>t. t\<lparr> next_direction := opposite (direction s) \<rparr>))
         (update cfg rnd (s\<lparr> next_direction := direction s \<rparr>))"
  by (simp add: update_def Let_def update_high_score_def increase_speed_def spawn_food_def
      split: list.splits sum.splits option.splits prod.splits)

lemma opposite_value:
  "((- fst (direction_value i), - snd (direction_value i)) = direction_value d) = (i = opposite d)"
  by (cases i; cases d) simp_all

lemma update_commits_direction:
  assumes "update cfg rnd s = Some (Inr s')" and "state s = PLAYING"
  shows "direction s' = (if next_direction s = opposite (direction s) then direction s
                         else next_direction s)"
  using update_playing_direction [OF assms] by (simp add: opposite_value)

text \<open>
  C3. In the PLAYING state, when the pending direction is the exact opposite of the
  committed direction, a call of \<^verbatim>\<open>update\<close> that returns leaves the committed
  direction as it was. The reversal is dropped silently: the call behaves, in every
  outcome, like the call made with no turn pending, so the reversal itself never
  raises.
\<close>

theorem reversal_is_dropped:
  "(state s = PLAYING \<and>
      update cfg rnd (s\<lparr> next_direction := opposite (direction s) \<rparr>) = Some (Inr s')
        \<longrightarrow> direction s' = direction s)
   \<and> update cfg rnd (s\<lparr> next_direction := opposite (direction s) \<rparr>)
       = map_option (map_sum id (\<lambda>t. t\<lparr> next_direction := opposite (direction s) \<rparr>))
           (update cfg rnd (s\<lparr> next_direction := direction s \<rparr>))"
proof (intro conjI impI)
  assume a: "state s = PLAYING \<and>
      update cfg rnd (s\<lparr> next_direction := opposite (direction s) \<rparr>) = Some (Inr s')"
  then have "update cfg rnd (s\<lparr> next_direction := opposite (direction s) \<rparr>) = Some (Inr s')"
    and "state (s\<lparr> next_direction := opposite (direction s) \<rparr>) = PLAYING"
    by simp_all
  from update_commits_direction [OF this] show "direction s' = direction s" by simp
next
  show "update cfg rnd (s\<lparr> next_direction := opposite (direction s) \<rparr>)
       = map_option (map_sum id (\<lambda>t. t\<lparr> next_direction := opposite (direction s) \<rparr>))
           (update cfg rnd (s\<lparr> next_direction := direction s \<rparr>))"
    by (rule reversal_acts_as_no_turn)
qed

theorem reversal_is_dropped_witness:
  "state example_started = PLAYING
   \<and> update default_config example_source (example_started\<lparr> next_direction := opposite (direction example_started) \<rparr>)
       = Some (Inr (example_after_eat\<lparr> next_direction := LEFT \<rparr>))
   \<and> direction (example_after_eat\<lparr> next_direction := LEFT \<rparr>) = direction example_started"
proof -
  have playing: "state example_started = PLAYING" by code_simp
  have run: "update default_config example_source
      (example_started\<lparr> next_direction := opposite (direction example_started) \<rparr>)
       = Some (Inr (example_after_eat\<lparr> next_direction := LEFT \<rparr>))"
    by code_simp
  from reversal_is_dropped [of example_started default_config example_source
        "example_after_eat\<lparr> next_direction := LEFT \<rparr>"] playing run
  show ?thesis by simp
qed

text \<open>
  C5. \<^verbatim>\<open>update_direction\<close> in the PLAYING state, with offsets \<open>dx\<close>, \<open>dy\<close> of the
  hand position from the centre of the head's cell and threshold \<open>T\<close>: it agrees with
  the specification's derivation; inside the band \<open>max |dx| |dy| \<le> T\<close> (the boundary
  included) nothing is recorded; outside, the intent is RIGHT or LEFT by the sign of
  \<open>dx\<close> when \<open>|dx| > |dy|\<close>, and DOWN or UP by the sign of \<open>dy\<close> otherwise, a tie
  included.
\<close>

theorem direction_intent_derivation:
  assumes "state s = PLAYING" and "snake s = head # rest"
    and "dx = fst hp - (fst head * GRID_SIZE cfg + GRID_SIZE cfg div 2)"
    and "dy = snd hp - (snd head * GRID_SIZE cfg + GRID_SIZE cfg div 2)"
    and "T = DIRECTION_THRESHOLD cfg"
  shows "update_direction cfg (Some hp) s =
           (case spec_intent T dx dy of None \<Rightarrow> s | Some i \<Rightarrow> s\<lparr> next_direction := i \<rparr>)
     \<and> (max \<bar>dx\<bar> \<bar>dy\<bar> \<le> T \<longrightarrow> update_direction cfg (Some hp) s = s)
     \<and> (max \<bar>dx\<bar> \<bar>dy\<bar> > T \<and> \<bar>dx\<bar> > \<bar>dy\<bar> \<longrightarrow>
          update_direction cfg (Some hp) s = s\<lparr> next_direction := (if dx > 0 then RIGHT else LEFT) \<rparr>)
     \<and> (max \<bar>dx\<bar> \<bar>dy\<bar> > T \<and> \<bar>dx\<bar> \<le> \<bar>dy\<bar> \<longrightarrow>
          update_direction cfg (Some hp) s = s\<lparr> next_direction := (if dy > 0 then DOWN else UP) \<rparr>)"
proof -
  have ud: "update_direction cfg (Some hp) s =
      (if \<bar>dx\<bar> > T \<or> \<bar>dy\<bar> > T
       then (if \<bar>dx\<bar> > \<bar>dy\<bar>
             then s\<lparr> next_direction := (if dx > 0 then RIGHT else LEFT) \<rparr>
             else s\<lparr> next_direction := (if dy > 0 then DOWN else UP) \<rparr>)
       else s)"
    using assms by (simp add: update_direction_def Let_def)
  have band: "(max \<bar>dx\<bar> \<bar>dy\<bar> \<le> T) = (\<not> (\<bar>dx\<bar> > T \<or> \<bar>dy\<bar> > T))"
    and out: "(T < max \<bar>dx\<bar> \<bar>dy\<bar>) = (\<bar>dx\<bar> > T \<or> \<bar>dy\<bar> > T)"
    by (simp_all add: max_def not_less) linarith+
  show ?thesis
    unfolding ud spec_intent_def band out
    by (cases "\<bar>dx\<bar> > T \<or> \<bar>dy\<bar> > T"; cases "\<bar>dx\<bar> > \<bar>dy\<bar>") simp_all
qed

theorem direction_intent_derivation_witness:
  "state example_started = PLAYING \<and> snake example_started = (20, 15) # [(19, 15), (18, 15)]
   \<and> update_direction default_config (Some (440, 310)) example_started = example_started
   \<and> update_direction default_config (Some (441, 310)) example_started
       = example_started\<lparr> next_direction := RIGHT \<rparr>
   \<and> update_direction default_config (Some (450, 350)) example_started
       = example_started\<lparr> next_direction := DOWN \<rparr>"
proof -
  have playing: "state example_started = PLAYING" by code_simp
  have sn: "snake example_started = (20, 15) # [(19, 15), (18, 15)]" by code_simp
  have c: "GRID_SIZE default_config = 20" "DIRECTION_THRESHOLD default_config = 30"
    by (simp_all add: default_config_def)
  from direction_intent_derivation [where hp = "(440, 310)" and cfg = default_config,
           OF playing sn refl refl refl]
       direction_intent_derivation [where hp = "(441, 310)" and cfg = default_config,
           OF playing sn refl refl refl]
       direction_intent_derivation [where hp = "(450, 350)" and cfg = default_config,
           OF playing sn refl refl refl]
       playing sn
  show ?thesis by (simp add: c spec_intent_def)
qed

subsection \<open>The pause gesture\<close>

lemma pause_gesture_fist:
  "fst (pause_gesture True app) = (pause_gesture_cooldown app \<le> 0)"
  "pause_gesture_cooldown (snd (pause_gesture True app)) =
     (if pause_gesture_cooldown app \<le> 0 then 29 else pause_gesture_cooldown app - 1)"
  by (simp_all add: pause_gesture_def Let_def)

lemma toggle_ticks_step:
  "toggle_ticks rest t (True # flags) app =
     (if pause_gesture_cooldown app \<le> 0 then [t] else []) @
     toggle_ticks rest (Suc t) flags
       ((snd (pause_gesture True app))\<lparr> game := rest t (game (snd (pause_gesture True app))) \<rparr>)"
  using pause_gesture_fist(1) [of app]
  by (cases "pause_gesture True app") (simp add: Let_def)

lemma cooldown_shift:
  fixes c :: int and t u :: nat
  assumes "0 \<le> c" and "t < u"
  shows "(Suc t + nat (if c \<le> 0 then 29 else c - 1) \<le> u \<and>
          (u - (Suc t + nat (if c \<le> 0 then 29 else c - 1))) mod 30 = 0)
       = (t + nat c \<le> u \<and> (u - (t + nat c)) mod 30 = 0)"
proof (cases "c \<le> 0")
  case True
  with assms(1) have c: "c = 0" by simp
  have "(30 + t \<le> u \<and> (u - (30 + t)) mod 30 = 0) = (t \<le> u \<and> (u - t) mod 30 = 0)"
    using assms(2) by presburger
  then show ?thesis by (simp add: c)
next
  case False
  then have "Suc t + nat (c - 1) = t + nat c" by linarith
  with False show ?thesis by (simp only: if_False)
qed

lemma toggle_ticks_held:
  assumes "0 \<le> pause_gesture_cooldown app"
  shows "toggle_ticks rest t (replicate n True) app =
           filter (\<lambda>u. t + nat (pause_gesture_cooldown app) \<le> u \<and>
                        (u - (t + nat (pause_gesture_cooldown app))) mod 30 = 0) [t..<t + n]"
  using assms
proof (induction n arbitrary: t app)
  case 0
  show ?case by simp
next
  case (Suc n)
  define c where "c = pause_gesture_cooldown app"
  define app2 where
    "app2 = (snd (pause_gesture True app))\<lparr> game := rest t (game (snd (pause_gesture True app))) \<rparr>"
  have c2: "pause_gesture_cooldown app2 = (if c \<le> 0 then 29 else c - 1)"
    by (simp add: app2_def c_def pause_gesture_fist)
  have c0: "0 \<le> c" using Suc.prems by (simp add: c_def)
  then have "0 \<le> pause_gesture_cooldown app2" by (simp add: c2)
  from Suc.IH [OF this, of "Suc t"]
  have ih: "toggle_ticks rest (Suc t) (replicate n True) app2 =
      filter (\<lambda>u. Suc t + nat (pause_gesture_cooldown app2) \<le> u \<and>
                   (u - (Suc t + nat (pause_gesture_cooldown app2))) mod 30 = 0) [Suc t..<Suc t + n]"
    .
  have same: "filter (\<lambda>u. Suc t + nat (pause_gesture_cooldown app2) \<le> u \<and>
                   (u - (Suc t + nat (pause_gesture_cooldown app2))) mod 30 = 0) [Suc t..<Suc t + n]
      = filter (\<lambda>u. t + nat c \<le> u \<and> (u - (t + nat c)) mod 30 = 0) [Suc t..<Suc t + n]"
  proof (rule filter_cong [OF refl])
    fix u assume "u \<in> set [Suc t..<Suc t + n]"
    then have u: "t < u" by (simp only: set_upt atLeastLessThan_iff Suc_le_eq)
    show "(Suc t + nat (pause_gesture_cooldown app2) \<le> u \<and>
           (u - (Suc t + nat (pause_gesture_cooldown app2))) mod 30 = 0)
        = (t + nat c \<le> u \<and> (u - (t + nat c)) mod 30 = 0)"
      unfolding c2 by (rule cooldown_shift [OF c0 u])
  qed
  have upt: "[t..<t + Suc n] = t # [Suc t..<Suc t + n]" by (simp add: upt_conv_Cons)
  have "toggle_ticks rest t (replicate (Suc n) True) app =
      (if c \<le> 0 then [t] else []) @ toggle_ticks rest (Suc t) (replicate n True) app2"
    by (simp only: replicate_Suc toggle_ticks_step app2_def c_def)
  also have "\<dots> = (if c \<le> 0 then [t] else []) @
      filter (\<lambda>u. t + nat c \<le> u \<and> (u - (t + nat c)) mod 30 = 0) [Suc t..<Suc t + n]"
    by (simp only: ih same)
  also have "\<dots> = filter (\<lambda>u. t + nat c \<le> u \<and> (u - (t + nat c)) mod 30 = 0) [t..<t + Suc n]"
    using c0 unfolding upt by auto
  finally show ?case by (simp only: c_def)
qed

text \<open>
  C1. Pause-gesture debounce. Starting with the cooldown at 0 and the fist flag true in
  \<open>n\<close> consecutive passes of the loop, numbered from 1, \<^verbatim>\<open>toggle_pause\<close> is called
  exactly in the passes \<open>u\<close> with \<open>(u - 1) mod 30 = 0\<close>: once in every 30 passes, not
  once per pass, whatever the rest of the loop does to the game. With 100 passes these
  are the four passes 1, 31, 61 and 91.
\<close>

theorem held_fist_toggles_every_thirty_ticks:
  assumes "pause_gesture_cooldown app = 0"
  shows "toggle_ticks rest 1 (replicate n True) app = filter (\<lambda>u. (u - 1) mod 30 = 0) [1..<n + 1]
       \<and> toggle_ticks rest 1 (replicate 100 True) app = [1, 31, 61, 91]"
proof -
  have gen: "toggle_ticks rest 1 (replicate m True) app = filter (\<lambda>u. (u - 1) mod 30 = 0) [1..<m + 1]"
    for m
  proof -
    have "toggle_ticks rest 1 (replicate m True) app =
        filter (\<lambda>u. 1 + nat 0 \<le> u \<and> (u - (1 + nat 0)) mod 30 = 0) [1..<1 + m]"
      using toggle_ticks_held [of app rest 1 m] assms by simp
    also have "\<dots> = filter (\<lambda>u. (u - 1) mod 30 = 0) [1..<m + 1]"
    proof (rule filter_cong)
      show "[1..<1 + m] = [1..<m + 1]" by (simp only: add.commute)
    next
      fix u assume "u \<in> set [1..<m + 1]"
      then have "1 \<le> u" by (simp only: set_upt atLeastLessThan_iff)
      then show "(1 + nat 0 \<le> u \<and> (u - (1 + nat 0)) mod 30 = 0) = ((u - 1) mod 30 = 0)"
        by simp
    qed
    finally show ?thesis .
  qed
  have "filter (\<lambda>u. (u - 1) mod 30 = 0) [1..<100 + 1] = [1, 31, 61, 91::nat]"
    by code_simp
  with gen [of 100] gen [of n] show ?thesis by simp
qed

theorem held_fist_toggles_every_thirty_ticks_witness:
  "pause_gesture_cooldown \<lparr> game = example_started, pause_gesture_cooldown = 0 \<rparr> = 0
   \<and> toggle_ticks (\<lambda>t g. g) 1 (replicate 45 True)
        \<lparr> game = example_started, pause_gesture_cooldown = 0 \<rparr> = [1, 31]
   \<and> toggle_ticks (\<lambda>t g. g) 1 (replicate 100 True)
        \<lparr> game = example_started, pause_gesture_cooldown = 0 \<rparr> = [1, 31, 61, 91]"
proof -
  have c: "pause_gesture_cooldown \<lparr> game = example_started, pause_gesture_cooldown = 0 \<rparr> = 0"
    by simp
  have "filter (\<lambda>u. (u - 1) mod 30 = 0) [1..<45 + 1] = [1, 31::nat]"
    by code_simp
  with held_fist_toggles_every_thirty_ticks [OF c, of "\<lambda>t g. g" 45] c show ?thesis by simp
qed

text \<open>
  The run of 100 passes has four calls, not three: pass 91 is within the run.
\<close>

theorem held_fist_hundred_ticks_counterexample:
  "toggle_ticks (\<lambda>t g. g) 1 (replicate 100 True)
     \<lparr> game = example_started, pause_gesture_cooldown = 0 \<rparr> = [1, 31, 61, 91]
   \<and> length (toggle_ticks (\<lambda>t g. g) 1 (replicate 100 True)
       \<lparr> game = example_started, pause_gesture_cooldown = 0 \<rparr>) \<noteq> 3"
  by code_simp

subsection \<open>Position smoothing\<close>

lemma py_int_quotient:
  assumes "0 < n"
  shows "py_int (of_int a / of_int n) = sgn a * (\<bar>a\<bar> div n)"
proof (cases "0 \<le> a")
  case True
  then have "(0::rat) \<le> of_int a / of_int n" using assms by simp
  then have "py_int (of_int a / of_int n) = \<lfloor>(of_int a / of_int n :: rat)\<rfloor>"
    by (simp add: py_int_def)
  also have "\<dots> = a div n" by (simp add: floor_divide_of_int_eq)
  finally show ?thesis using True by (cases "a = 0") (simp_all add: sgn_if)
next
  case False
  then have neg: "a < 0" by simp
  then have "(of_int a / of_int n :: rat) < 0" using assms by (simp add: divide_neg_pos)
  then have "py_int (of_int a / of_int n) = \<lceil>(of_int a / of_int n :: rat)\<rceil>"
    by (simp add: py_int_def)
  also have "\<dots> = - \<lfloor>(of_int (- a) / of_int n :: rat)\<rfloor>"
    by (simp add: ceiling_def)
  also have "\<dots> = - ((- a) div n)" by (simp only: floor_divide_of_int_eq)
  finally show ?thesis using neg by (simp add: sgn_if)
qed

lemma get_smoothed_position_mean:
  "get_smoothed_position h =
     (if h = [] then None else Some (truncated_mean (map fst h), truncated_mean (map snd h)))"
proof (cases "h = []")
  case True
  then show ?thesis by (simp add: get_smoothed_position_def)
next
  case False
  then have "0 < int (length h)" by simp
  from py_int_quotient [OF this] False show ?thesis
    by (simp add: get_smoothed_position_def truncated_mean_def Let_def)
qed

lemma spec_history_short: "length h \<le> capacity \<Longrightarrow> spec_history capacity h = h"
  by (simp add: spec_history_def)

lemma deque_append_window:
  assumes "length h \<le> capacity"
  shows "length (deque_append (int capacity) h p) \<le> capacity"
    and "spec_history capacity (deque_append (int capacity) h p @ xs)
         = spec_history capacity (h @ p # xs)"
proof -
  show "length (deque_append (int capacity) h p) \<le> capacity"
    using assms by (simp add: deque_append_def Let_def)
  show "spec_history capacity (deque_append (int capacity) h p @ xs)
         = spec_history capacity (h @ p # xs)"
  proof (cases "length h < capacity")
    case True
    then show ?thesis by (simp add: deque_append_def Let_def)
  next
    case False
    with assms have len: "length h = capacity" by simp
    obtain a r where ar: "h @ [p] = a # r" by (cases "h @ [p]") simp_all
    then have lr: "length r = capacity" using len
      by (metis length_append_singleton length_Cons nat.inject)
    have d: "deque_append (int capacity) h p = r"
      using len ar lr by (simp add: deque_append_def Let_def)
    have e: "h @ p # xs = a # r @ xs" using ar by (metis append_Cons append_assoc append_Nil)
    show ?thesis unfolding d e by (simp add: spec_history_def lr)
  qed
qed

lemma detect_hands_window:
  assumes "GESTURE_SMOOTHING_WINDOW cfg = int capacity" and "length h \<le> capacity"
  shows "detect_hands cfg ds h = spec_history capacity (h @ List.map_filter id ds)"
  using assms(2)
proof (induction ds arbitrary: h)
  case Nil
  then show ?case by (simp add: spec_history_short List.map_filter_simps)
next
  case (Cons d ds)
  show ?case
  proof (cases d)
    case None
    with Cons show ?thesis by (simp add: detect_hand_def List.map_filter_simps)
  next
    case (Some p)
    from deque_append_window [OF Cons.prems, of p]
    have l: "length (deque_append (int capacity) h p) \<le> capacity"
      and w: "\<And>xs. spec_history capacity (deque_append (int capacity) h p @ xs)
         = spec_history capacity (h @ p # xs)"
      by simp_all
    from Cons.IH [OF l] w Some assms(1) show ?thesis
      by (simp add: detect_hand_def List.map_filter_simps)
  qed
qed

text \<open>
  C7. Starting from the empty history of the constructor, after any sequence of
  detections (a miss appends nothing) \<^verbatim>\<open>get_smoothed_position\<close> is the specification's
  estimate: the component-wise mean, fraction cut off, of the last
  \<^verbatim>\<open>GESTURE_SMOOTHING_WINDOW\<close> pushed positions, and nothing when the history is empty.
  With the default window of 5, the positions (0,0), (10,0), (20,0), (30,0), (40,0)
  give (20,0), and a sixth push of (50,0) gives (30,0).
\<close>

theorem smoothed_position_is_truncated_window_mean:
  assumes "new_position_history cfg = Inr h0"
  shows "get_smoothed_position (detect_hands cfg ds h0)
           = spec_estimate (nat (GESTURE_SMOOTHING_WINDOW cfg)) (List.map_filter id ds)
       \<and> get_smoothed_position [] = None
       \<and> get_smoothed_position (detect_hands default_config
            (map Some [(0, 0), (10, 0), (20, 0), (30, 0), (40, 0)]) []) = Some (20, 0)
       \<and> get_smoothed_position (detect_hands default_config
            (map Some [(0, 0), (10, 0), (20, 0), (30, 0), (40, 0), (50, 0)]) []) = Some (30, 0)"
proof -
  have five: "get_smoothed_position (detect_hands default_config
      (map Some [(0, 0), (10, 0), (20, 0), (30, 0), (40, 0)]) []) = Some (20, 0)"
    by code_simp
  have six: "get_smoothed_position (detect_hands default_config
      (map Some [(0, 0), (10, 0), (20, 0), (30, 0), (40, 0), (50, 0)]) []) = Some (30, 0)"
    by code_simp
  from assms have w: "0 \<le> GESTURE_SMOOTHING_WINDOW cfg" and h0: "h0 = []"
    by (auto simp: new_position_history_def split: if_splits)
  then have "GESTURE_SMOOTHING_WINDOW cfg = int (nat (GESTURE_SMOOTHING_WINDOW cfg))" by simp
  from detect_hands_window [OF this, of "[]" ds]
  have "get_smoothed_position (detect_hands cfg ds h0)
           = spec_estimate (nat (GESTURE_SMOOTHING_WINDOW cfg)) (List.map_filter id ds)"
    by (simp add: h0 get_smoothed_position_mean spec_estimate_def Let_def)
  moreover have "get_smoothed_position [] = None"
    by (simp add: get_smoothed_position_def)
  ultimately show ?thesis using five six by (simp only: simp_thms)
qed

theorem smoothed_position_is_truncated_window_mean_witness:
  "new_position_history default_config = Inr []
   \<and> get_smoothed_position (detect_hands default_config
        [Some (0, 0), None, Some (10, 0), Some (20, 0), Some (30, 0), Some (40, 0), None,
         Some (57, 9)] []) = Some (31, 1)
   \<and> get_smoothed_position [] = None
   \<and> get_smoothed_position (detect_hands default_config
        (map Some [(0, 0), (10, 0), (20, 0), (30, 0), (40, 0)]) []) = Some (20, 0)
   \<and> get_smoothed_position (detect_hands default_config
        (map Some [(0, 0), (10, 0), (20, 0), (30, 0), (40, 0), (50, 0)]) []) = Some (30, 0)"
proof -
  have h: "new_position_history default_config = Inr []"
    by code_simp
  have est: "spec_estimate (nat (GESTURE_SMOOTHING_WINDOW default_config))
      (List.map_filter id
        [Some (0, 0), None, Some (10, 0), Some (20, 0), Some (30, 0), Some (40, 0), None,
         Some (57, 9)]) = Some (31, 1)"
    by code_simp
  from smoothed_position_is_truncated_window_mean
         [OF h, of "[Some (0, 0), None, Some (10, 0), Some (20, 0), Some (30, 0), Some (40, 0),
                     None, Some (57, 9)]"]
       h est
  show ?thesis by (simp only: simp_thms)
qed

subsection \<open>The straight run to the right wall\<close>

lemma draws_off_row_shift:
  assumes "draws_off_row rnd grid_rows r n"
  shows "draws_off_row rnd grid_rows r (n + 2 * k)"
  unfolding draws_off_row_def
proof
  fix j
  from assms obtain i where i: "j + k \<le> i" "int (rnd (n + 2 * i + 1)) mod grid_rows \<noteq> r"
    unfolding draws_off_row_def by blast
  have e: "n + 2 * k + 2 * (i - k) + 1 = n + 2 * i + 1" using i(1) by simp
  show "\<exists>i. j \<le> i \<and> int (rnd (n + 2 * k + 2 * i + 1)) mod grid_rows \<noteq> r"
  proof (intro exI [of _ "i - k"] conjI)
    show "j \<le> i - k" using i(1) by simp
    show "int (rnd (n + 2 * k + 2 * (i - k) + 1)) mod grid_rows \<noteq> r"
      unfolding e by (rule i(2))
  qed
qed

lemma spawn_food_loop_returns:
  assumes "0 < grid_cols" and "0 < grid_rows"
    and "\<forall>c \<in> set cells. snd c = r"
    and "int (rnd (n + 2 * i + 1)) mod grid_rows \<noteq> r"
  shows "\<exists>c k. spawn_food_loop rnd grid_cols grid_rows cells n = Some (Inr (c, n + 2 * Suc k))"
  using assms(4)
proof (induction i arbitrary: n)
  case 0
  have y: "(int (rnd n) mod grid_cols, int (rnd (n + 1)) mod grid_rows) \<notin> set cells"
    using 0 assms(3) by auto
  have "spawn_food_loop rnd grid_cols grid_rows cells n
      = Some (Inr ((int (rnd n) mod grid_cols, int (rnd (n + 1)) mod grid_rows), n + 2 * Suc 0))"
    using assms(1,2) y by (subst spawn_food_loop.simps) (simp add: randint_def)
  then show ?case by blast
next
  case (Suc i)
  show ?case
  proof (cases "(int (rnd n) mod grid_cols, int (rnd (n + 1)) mod grid_rows) \<in> set cells")
    case False
    have "spawn_food_loop rnd grid_cols grid_rows cells n
      = Some (Inr ((int (rnd n) mod grid_cols, int (rnd (n + 1)) mod grid_rows), n + 2 * Suc 0))"
      using assms(1,2) False by (subst spawn_food_loop.simps) (simp add: randint_def)
    then show ?thesis by blast
  next
    case True
    have "int (rnd (n + 2 + 2 * i + 1)) mod grid_rows \<noteq> r" using Suc.prems by simp
    from Suc.IH [OF this] obtain c k where
      rec: "spawn_food_loop rnd grid_cols grid_rows cells (n + 2) = Some (Inr (c, n + 2 + 2 * Suc k))"
      by blast
    have "spawn_food_loop rnd grid_cols grid_rows cells n
        = spawn_food_loop rnd grid_cols grid_rows cells (n + 2)"
      using assms(1,2) True by (subst spawn_food_loop.simps) (simp add: randint_def)
    with rec have "spawn_food_loop rnd grid_cols grid_rows cells n
        = Some (Inr (c, n + 2 * Suc (Suc k)))" by simp
    then show ?thesis by blast
  qed
qed

lemma spawn_food_returns:
  assumes "get_grid_dimensions cfg = Inr (grid_cols, grid_rows)"
    and "0 < grid_cols" and "0 < grid_rows"
    and "\<forall>c \<in> set (snake s). snd c = r"
    and "draws_off_row rnd grid_rows r (draws s)"
  shows "\<exists>c k. spawn_food cfg rnd s = Some (Inr (c, draws s + 2 * Suc k))"
proof -
  from assms(5) obtain i where "int (rnd (draws s + 2 * i + 1)) mod grid_rows \<noteq> r"
    unfolding draws_off_row_def by blast
  from spawn_food_loop_returns [where n = "draws s" and i = i and rnd = rnd, OF assms(2,3,4) this]
  show ?thesis
    by (simp add: spawn_food_def assms(1))
qed

lemma updates_game_over:
  "state s = GAME_OVER \<Longrightarrow> updates cfg rnd k s = Some (Inr s)"
  by (induction k) (simp_all add: update_not_playing)

lemma spawn_food_loop_full:
  assumes ret: "spawn_food_loop rnd grid_cols grid_rows cells n = Some r"
  shows "\<not> (0 < grid_cols \<and> 0 < grid_rows \<and>
            (\<forall>x y. 0 \<le> x \<and> x < grid_cols \<and> 0 \<le> y \<and> y < grid_rows \<longrightarrow> (x, y) \<in> set cells))"
proof (rule spawn_food_loop.raw_induct
    [OF _ ret, where P = "\<lambda>rnd grid_cols grid_rows cells n r.
       \<not> (0 < grid_cols \<and> 0 < grid_rows \<and>
          (\<forall>x y. 0 \<le> x \<and> x < grid_cols \<and> 0 \<le> y \<and> y < grid_rows \<longrightarrow> (x, y) \<in> set cells))"],
    goal_cases)
  case (1 loop rnd grid_cols grid_rows cells n r)
  show ?case
  proof
    assume full: "0 < grid_cols \<and> 0 < grid_rows \<and>
      (\<forall>x y. 0 \<le> x \<and> x < grid_cols \<and> 0 \<le> y \<and> y < grid_rows \<longrightarrow> (x, y) \<in> set cells)"
    define x where "x = int (rnd n) mod grid_cols"
    define y where "y = int (rnd (n + 1)) mod grid_rows"
    have rx: "randint rnd n 0 (grid_cols - 1) = Inr x"
      using full by (simp add: randint_def x_def)
    have ry: "randint rnd (n + 1) 0 (grid_rows - 1) = Inr y"
      using full by (simp add: randint_def y_def)
    have "0 \<le> x \<and> x < grid_cols \<and> 0 \<le> y \<and> y < grid_rows"
      using full by (simp add: x_def y_def)
    with full have "(x, y) \<in> set cells" by blast
    with 1(2) rx ry have "loop rnd grid_cols grid_rows cells (n + 2) = Some r" by simp
    from 1(1) [OF this] full show False by blast
  qed
qed

lemma spawn_food_loop_never_returns:
  assumes "0 < grid_cols" and "0 < grid_rows"
    and "\<forall>x y. 0 \<le> x \<and> x < grid_cols \<and> 0 \<le> y \<and> y < grid_rows \<longrightarrow> (x, y) \<in> set cells"
  shows "spawn_food_loop rnd grid_cols grid_rows cells n = None"
proof (cases "spawn_food_loop rnd grid_cols grid_rows cells n")
  case None
  then show ?thesis .
next
  case (Some r)
  from spawn_food_loop_full [OF this] assms show ?thesis by blast
qed

lemma straight_step_wall:
  assumes dims: "get_grid_dimensions cfg = Inr (grid_cols, grid_rows)"
    and inv: "on_row_heading_right grid_cols grid_rows r x s"
    and wall: "grid_cols \<le> x + 1"
  shows "\<exists>s'. update cfg rnd s = Some (Inr s') \<and> state s' = GAME_OVER \<and> draws s' = draws s"
proof -
  from inv obtain rest where sn: "snake s = (x, r) # rest"
    and f: "state s = PLAYING" "direction s = RIGHT" "next_direction s = RIGHT"
    unfolding on_row_heading_right_def by blast
  have "update cfg rnd s = Some (Inr (update_high_score
      (s\<lparr> frame_count := frame_count s + 1, direction := RIGHT, state := GAME_OVER \<rparr>)))"
    using wall by (simp add: update_def Let_def sn f dims)
  then show ?thesis by (simp add: update_high_score_def)
qed

lemma straight_step_state:
  assumes dims: "get_grid_dimensions cfg = Inr (grid_cols, grid_rows)"
    and inv: "on_row_heading_right grid_cols grid_rows r x s"
    and ret: "update cfg rnd s = Some (Inr s')"
  shows "if x + 1 < grid_cols then on_row_heading_right grid_cols grid_rows r (x + 1) s'
         else state s' = GAME_OVER"
proof (cases "x + 1 < grid_cols")
  case False
  then have "grid_cols \<le> x + 1" by simp
  from straight_step_wall [OF dims inv this, of rnd] ret False show ?thesis by auto
next
  case inside: True
  from inv obtain rest where sn: "snake s = (x, r) # rest"
    and f: "state s = PLAYING" "direction s = RIGHT" "next_direction s = RIGHT"
    and b: "0 \<le> x" "x < grid_cols" "0 \<le> r" "r < grid_rows"
    and row: "\<forall>c \<in> set (snake s). snd c = r \<and> fst c \<le> x"
    unfolding on_row_heading_right_def by blast
  have fresh: "(x + 1, r) \<notin> set (snake s)" using row by force
  define s2 where "s2 = s\<lparr> frame_count := frame_count s + 1, direction := RIGHT \<rparr>"
  have "on_row_heading_right grid_cols grid_rows r (x + 1) s'"
  proof (cases "(x + 1, r) = food s")
    case False
    have "update cfg rnd s = Some (Inr (s2\<lparr> snake := butlast ((x + 1, r) # snake s) \<rparr>))"
      using inside b False fresh by (simp add: update_def Let_def sn f dims s2_def)
    with ret have s': "s' = s2\<lparr> snake := butlast ((x + 1, r) # snake s) \<rparr>" by simp
    show ?thesis
      unfolding on_row_heading_right_def s'
      using inside b row f by (auto simp: s2_def sn dest!: in_set_butlastD)
  next
    case True
    then have fd: "food s = (x + 1, r)" by simp
    define s4 where "s4 = s2\<lparr> snake := (x + 1, r) # snake s, score := score s + FOOD_POINTS cfg \<rparr>"
    from ret obtain c n where s': "s' = increase_speed (s4\<lparr> food := c, draws := n \<rparr>)"
      using inside b fresh
      by (auto simp: update_def Let_def sn f dims s2_def s4_def fd split: option.splits sum.splits)
    show ?thesis
      unfolding on_row_heading_right_def s'
      using inside b row f
      by (auto simp: increase_speed_def Let_def s4_def s2_def sn)
  qed
  with inside show ?thesis by simp
qed

lemma straight_step_returns:
  assumes dims: "get_grid_dimensions cfg = Inr (grid_cols, grid_rows)"
    and inv: "on_row_heading_right grid_cols grid_rows r x s"
    and fair: "draws_off_row rnd grid_rows r (draws s)"
  shows "\<exists>s'. update cfg rnd s = Some (Inr s') \<and> draws_off_row rnd grid_rows r (draws s')"
proof (cases "x + 1 < grid_cols")
  case False
  then have "grid_cols \<le> x + 1" by simp
  from straight_step_wall [OF dims inv this, of rnd] fair show ?thesis by auto
next
  case inside: True
  from inv obtain rest where sn: "snake s = (x, r) # rest"
    and f: "state s = PLAYING" "direction s = RIGHT" "next_direction s = RIGHT"
    and b: "0 \<le> x" "x < grid_cols" "0 \<le> r" "r < grid_rows"
    and row: "\<forall>c \<in> set (snake s). snd c = r \<and> fst c \<le> x"
    unfolding on_row_heading_right_def by blast
  have fresh: "(x + 1, r) \<notin> set (snake s)" using row by force
  define s2 where "s2 = s\<lparr> frame_count := frame_count s + 1, direction := RIGHT \<rparr>"
  show ?thesis
  proof (cases "(x + 1, r) = food s")
    case False
    have "update cfg rnd s = Some (Inr (s2\<lparr> snake := butlast ((x + 1, r) # snake s) \<rparr>))"
      using inside b False fresh by (simp add: update_def Let_def sn f dims s2_def)
    moreover have "draws_off_row rnd grid_rows r (draws (s2\<lparr> snake := butlast ((x + 1, r) # snake s) \<rparr>))"
      using fair by (simp add: s2_def)
    ultimately show ?thesis by blast
  next
    case True
    then have fd: "food s = (x + 1, r)" by simp
    define s4 where "s4 = s2\<lparr> snake := (x + 1, r) # snake s, score := score s + FOOD_POINTS cfg \<rparr>"
    have cells: "\<forall>c \<in> set (snake s4). snd c = r" using row by (simp add: s4_def)
    have d4: "draws s4 = draws s" by (simp add: s4_def s2_def)
    have "draws_off_row rnd grid_rows r (draws s4)" using fair by (simp add: d4)
    from spawn_food_returns [OF dims _ _ cells this] b inside
    obtain c k where sp: "spawn_food cfg rnd s4 = Some (Inr (c, draws s4 + 2 * Suc k))"
      by auto
    have "update cfg rnd s = Some (Inr (increase_speed (s4\<lparr> food := c, draws := draws s4 + 2 * Suc k \<rparr>)))"
      using inside b fresh sp
      by (simp add: update_def Let_def sn f dims s2_def s4_def fd)
    moreover have "draws_off_row rnd grid_rows r
        (draws (increase_speed (s4\<lparr> food := c, draws := draws s4 + 2 * Suc k \<rparr>)))"
      using draws_off_row_shift [OF fair, of "Suc k"]
      by (simp add: increase_speed_def Let_def d4)
    ultimately show ?thesis by blast
  qed
qed

lemma straight_run_state:
  assumes dims: "get_grid_dimensions cfg = Inr (grid_cols, grid_rows)"
    and inv: "on_row_heading_right grid_cols grid_rows r x s"
    and ret: "updates cfg rnd k s = Some (Inr sk)"
  shows "if x + int k < grid_cols
         then on_row_heading_right grid_cols grid_rows r (x + int k) sk
         else state sk = GAME_OVER"
  using inv ret
proof (induction k arbitrary: s x)
  case 0
  then have "x < grid_cols" by (simp add: on_row_heading_right_def)
  with 0 show ?case by simp
next
  case (Suc k)
  from Suc.prems(2) obtain s' where s': "update cfg rnd s = Some (Inr s')"
    and rest: "updates cfg rnd k s' = Some (Inr sk)"
    by (auto split: option.splits sum.splits)
  have e: "x + int (Suc k) = x + 1 + int k" by simp
  show ?case
  proof (cases "x + 1 < grid_cols")
    case True
    with straight_step_state [OF dims Suc.prems(1) s']
    have "on_row_heading_right grid_cols grid_rows r (x + 1) s'" by simp
    from Suc.IH [OF this rest] show ?thesis unfolding e .
  next
    case False
    with straight_step_state [OF dims Suc.prems(1) s'] have over: "state s' = GAME_OVER" by simp
    from rest updates_game_over [OF over, of cfg rnd k] have "sk = s'" by simp
    moreover have "\<not> x + int (Suc k) < grid_cols" using False by simp
    ultimately show ?thesis using over by simp
  qed
qed

lemma straight_run_returns:
  assumes dims: "get_grid_dimensions cfg = Inr (grid_cols, grid_rows)"
    and inv: "on_row_heading_right grid_cols grid_rows r x s"
    and fair: "draws_off_row rnd grid_rows r (draws s)"
  shows "\<exists>sk. updates cfg rnd k s = Some (Inr sk)"
  using inv fair
proof (induction k arbitrary: s x)
  case 0
  show ?case by simp
next
  case (Suc k)
  from straight_step_returns [OF dims Suc.prems] obtain s' where
    s': "update cfg rnd s = Some (Inr s')" and fair': "draws_off_row rnd grid_rows r (draws s')"
    by blast
  show ?case
  proof (cases "x + 1 < grid_cols")
    case True
    with straight_step_state [OF dims Suc.prems(1) s']
    have "on_row_heading_right grid_cols grid_rows r (x + 1) s'" by simp
    from Suc.IH [OF this fair'] s' show ?thesis by simp
  next
    case False
    with straight_step_state [OF dims Suc.prems(1) s'] have over: "state s' = GAME_OVER" by simp
    from s' updates_game_over [OF over, of cfg rnd k] show ?thesis by simp
  qed
qed

lemma reset_game_state:
  assumes dims: "get_grid_dimensions cfg = Inr (grid_cols, grid_rows)"
    and ret: "reset_game cfg rnd s = Some (Inr s0)"
  shows "state s0 = MENU \<and>
         snake s0 = [(grid_cols div 2, grid_rows div 2), (grid_cols div 2 - 1, grid_rows div 2),
                     (grid_cols div 2 - 2, grid_rows div 2)] \<and>
         on_row_heading_right grid_cols grid_rows (grid_rows div 2) (grid_cols div 2) (start_game s0)"
proof -
  define s1 where "s1 = s\<lparr> snake := [(grid_cols div 2, grid_rows div 2),
      (grid_cols div 2 - 1, grid_rows div 2), (grid_cols div 2 - 2, grid_rows div 2)],
      direction := RIGHT, next_direction := RIGHT \<rparr>"
  from ret dims obtain f n where sp: "spawn_food cfg rnd s1 = Some (Inr (f, n))"
    and s0: "s0 = s1\<lparr> food := f, draws := n, score := 0, frame_count := 0,
                                  speed_multiplier := 1, state := MENU \<rparr>"
    by (auto simp: reset_game_def Let_def s1_def split: option.splits sum.splits)
  from sp have "spawn_food_loop rnd grid_cols grid_rows (snake s1) (draws s1) = Some (Inr (f, n))"
    by (simp add: spawn_food_def dims)
  from spawn_food_loop_result [OF this] have pos: "0 < grid_cols" "0 < grid_rows" by auto
  have b: "0 \<le> grid_cols div 2" "grid_cols div 2 < grid_cols"
    "0 \<le> grid_rows div 2" "grid_rows div 2 < grid_rows"
    using pos by simp_all
  have "on_row_heading_right grid_cols grid_rows (grid_rows div 2) (grid_cols div 2) (start_game s0)"
    unfolding on_row_heading_right_def
    using b by (simp add: start_game_def s0 s1_def)
  then show ?thesis by (simp add: s0 s1_def)
qed

lemma reset_game_returns:
  assumes dims: "get_grid_dimensions cfg = Inr (grid_cols, grid_rows)"
    and pos: "0 < grid_cols" "0 < grid_rows"
    and fair: "draws_off_row rnd grid_rows (grid_rows div 2) (draws s)"
  shows "\<exists>s0. reset_game cfg rnd s = Some (Inr s0) \<and>
           draws_off_row rnd grid_rows (grid_rows div 2) (draws (start_game s0))"
proof -
  define s1 where "s1 = s\<lparr> snake := [(grid_cols div 2, grid_rows div 2),
      (grid_cols div 2 - 1, grid_rows div 2), (grid_cols div 2 - 2, grid_rows div 2)],
      direction := RIGHT, next_direction := RIGHT \<rparr>"
  have cells: "\<forall>c \<in> set (snake s1). snd c = grid_rows div 2" by (simp add: s1_def)
  have "draws_off_row rnd grid_rows (grid_rows div 2) (draws s1)" using fair by (simp add: s1_def)
  from spawn_food_returns [OF dims pos cells this]
  obtain c k where sp: "spawn_food cfg rnd s1 = Some (Inr (c, draws s + 2 * Suc k))"
    by (auto simp: s1_def)
  define s0 where "s0 = s1\<lparr> food := c, draws := draws s + 2 * Suc k, score := 0,
      frame_count := 0, speed_multiplier := 1, state := MENU \<rparr>"
  have r: "reset_game cfg rnd s = Some (Inr s0)"
    using sp by (simp add: reset_game_def Let_def dims s1_def s0_def)
  have "draws_off_row rnd grid_rows (grid_rows div 2) (draws (start_game s0))"
    using draws_off_row_shift [OF fair, of "Suc k"]
    by (simp add: start_game_def s0_def s1_def)
  with r show ?thesis by blast
qed

text \<open>
  C4. The straight run from \<^verbatim>\<open>reset_game\<close> and \<^verbatim>\<open>start_game\<close> with no direction change.
  Whenever \<^verbatim>\<open>reset_game\<close> returns, the state is MENU and the snake is the three cells
  centred on the grid, head rightmost; and whenever \<open>k\<close> calls of \<^verbatim>\<open>update\<close> after
  \<^verbatim>\<open>start_game\<close> return, the state is PLAYING as long as \<open>k\<close> is below
  \<open>cols - start_x\<close> and GAME\_OVER from step \<open>cols - start_x\<close> on, for every grid and every
  random source. The calls do return, all of them, on a grid with at least one column
  and one row when the random source keeps drawing rows other than the snake's. Some
  such condition is needed: food placement has no bound on its draws.
\<close>

theorem straight_run_hits_right_wall:
  assumes "get_grid_dimensions cfg = Inr (grid_cols, grid_rows)"
  shows "(\<forall>s0. reset_game cfg rnd s = Some (Inr s0) \<longrightarrow>
            state s0 = MENU \<and>
            snake s0 = [(grid_cols div 2, grid_rows div 2), (grid_cols div 2 - 1, grid_rows div 2),
                        (grid_cols div 2 - 2, grid_rows div 2)] \<and>
            (\<forall>k sk. updates cfg rnd k (start_game s0) = Some (Inr sk) \<longrightarrow>
               state sk = (if int k < grid_cols - grid_cols div 2 then PLAYING else GAME_OVER)))
       \<and> (0 < grid_cols \<and> 0 < grid_rows \<and>
            draws_off_row rnd grid_rows (grid_rows div 2) (draws s) \<longrightarrow>
          (\<exists>s0. reset_game cfg rnd s = Some (Inr s0) \<and> state s0 = MENU \<and>
             snake s0 = [(grid_cols div 2, grid_rows div 2), (grid_cols div 2 - 1, grid_rows div 2),
                         (grid_cols div 2 - 2, grid_rows div 2)] \<and>
             (\<forall>k. \<exists>sk. updates cfg rnd k (start_game s0) = Some (Inr sk) \<and>
                state sk = (if int k < grid_cols - grid_cols div 2 then PLAYING else GAME_OVER))))"
proof -
  have safe: "state s0 = MENU \<and>
      snake s0 = [(grid_cols div 2, grid_rows div 2), (grid_cols div 2 - 1, grid_rows div 2),
                  (grid_cols div 2 - 2, grid_rows div 2)] \<and>
      (\<forall>k sk. updates cfg rnd k (start_game s0) = Some (Inr sk) \<longrightarrow>
         state sk = (if int k < grid_cols - grid_cols div 2 then PLAYING else GAME_OVER))"
    if r: "reset_game cfg rnd s = Some (Inr s0)" for s0
  proof -
    from reset_game_state [OF assms r] have
      m: "state s0 = MENU"
        "snake s0 = [(grid_cols div 2, grid_rows div 2), (grid_cols div 2 - 1, grid_rows div 2),
                     (grid_cols div 2 - 2, grid_rows div 2)]"
      and inv: "on_row_heading_right grid_cols grid_rows (grid_rows div 2) (grid_cols div 2)
                  (start_game s0)"
      by simp_all
    have "state sk = (if int k < grid_cols - grid_cols div 2 then PLAYING else GAME_OVER)"
      if u: "updates cfg rnd k (start_game s0) = Some (Inr sk)" for k sk
    proof -
      have "(int k < grid_cols - grid_cols div 2) = (grid_cols div 2 + int k < grid_cols)" by auto
      with straight_run_state [OF assms inv u] show ?thesis
        by (simp add: on_row_heading_right_def split: if_splits)
    qed
    with m show ?thesis by blast
  qed
  have live: "\<exists>s0. reset_game cfg rnd s = Some (Inr s0) \<and> state s0 = MENU \<and>
      snake s0 = [(grid_cols div 2, grid_rows div 2), (grid_cols div 2 - 1, grid_rows div 2),
                  (grid_cols div 2 - 2, grid_rows div 2)] \<and>
      (\<forall>k. \<exists>sk. updates cfg rnd k (start_game s0) = Some (Inr sk) \<and>
         state sk = (if int k < grid_cols - grid_cols div 2 then PLAYING else GAME_OVER))"
    if pos: "0 < grid_cols" "0 < grid_rows"
      and fair: "draws_off_row rnd grid_rows (grid_rows div 2) (draws s)"
  proof -
    from reset_game_returns [OF assms pos fair] obtain s0 where
      r: "reset_game cfg rnd s = Some (Inr s0)"
      and fair0: "draws_off_row rnd grid_rows (grid_rows div 2) (draws (start_game s0))"
      by blast
    from reset_game_state [OF assms r] have
      inv: "on_row_heading_right grid_cols grid_rows (grid_rows div 2) (grid_cols div 2)
              (start_game s0)"
      by simp
    have "\<exists>sk. updates cfg rnd k (start_game s0) = Some (Inr sk) \<and>
        state sk = (if int k < grid_cols - grid_cols div 2 then PLAYING else GAME_OVER)" for k
    proof -
      from straight_run_returns [OF assms inv fair0, of k] obtain sk where
        u: "updates cfg rnd k (start_game s0) = Some (Inr sk)" by blast
      with safe [OF r] show ?thesis by blast
    qed
    with r safe [OF r] show ?thesis by blast
  qed
  from safe live show ?thesis by blast
qed

lemma example_source_off_row:
  "draws_off_row example_source 30 (30 div 2) (draws (initial_attributes 0 0))"
  unfolding draws_off_row_def
proof
  fix j :: nat
  have "(93 + 240 * int j) mod 30 = 3" by presburger
  then have "int (example_source (draws (initial_attributes 0 0) + 2 * (5 * j + 1) + 1)) mod 30
      \<noteq> 30 div 2"
    by (simp add: example_source_def initial_attributes_def)
  moreover have "j \<le> 5 * j + 1" by simp
  ultimately show "\<exists>i. j \<le> i \<and>
      int (example_source (draws (initial_attributes 0 0) + 2 * i + 1)) mod 30 \<noteq> 30 div 2"
    by blast
qed

theorem straight_run_hits_right_wall_witness:
  "get_grid_dimensions default_config = Inr (40, 30)
   \<and> reset_game default_config example_source (initial_attributes 0 0)
       = Some (Inr (example_started\<lparr> state := MENU \<rparr>))
   \<and> start_game (example_started\<lparr> state := MENU \<rparr>) = example_started
   \<and> state (example_started\<lparr> state := MENU \<rparr>) = MENU
   \<and> snake (example_started\<lparr> state := MENU \<rparr>)
       = [(40 div 2, 30 div 2), (40 div 2 - 1, 30 div 2), (40 div 2 - 2, 30 div 2)]
   \<and> updates default_config example_source 19 example_started = Some (Inr example_at_wall)
   \<and> state example_at_wall = (if int 19 < 40 - 40 div 2 then PLAYING else GAME_OVER)
   \<and> updates default_config example_source 20 example_started = Some (Inr example_game_over)
   \<and> state example_game_over = (if int 20 < 40 - 40 div 2 then PLAYING else GAME_OVER)
   \<and> (0::int) < 40 \<and> (0::int) < 30
   \<and> draws_off_row example_source 30 (30 div 2) (draws (initial_attributes 0 0))
   \<and> (\<exists>s0. reset_game default_config example_source (initial_attributes 0 0) = Some (Inr s0) \<and>
           state s0 = MENU \<and>
           snake s0 = [(40 div 2, 30 div 2), (40 div 2 - 1, 30 div 2), (40 div 2 - 2, 30 div 2)] \<and>
           (\<forall>k. \<exists>sk. updates default_config example_source k (start_game s0) = Some (Inr sk) \<and>
                  state sk = (if int k < 40 - 40 div 2 then PLAYING else GAME_OVER)))"
proof -
  have dims: "get_grid_dimensions default_config = Inr (40, 30)"
    by (simp add: get_grid_dimensions_def default_config_def)
  have pos: "(0::int) < 40" "(0::int) < 30" by simp_all
  have r: "reset_game default_config example_source (initial_attributes 0 0)
      = Some (Inr (example_started\<lparr> state := MENU \<rparr>))"
    by code_simp
  have st: "start_game (example_started\<lparr> state := MENU \<rparr>) = example_started"
    by (simp add: start_game_def example_started_def)
  have before: "updates default_config example_source 19 example_started = Some (Inr example_at_wall)"
    by code_simp
  have at: "updates default_config example_source 20 example_started = Some (Inr example_game_over)"
    by code_simp
  note run = straight_run_hits_right_wall [OF dims, of example_source "initial_attributes 0 0"]
  from run r have safe: "state (example_started\<lparr> state := MENU \<rparr>) = MENU \<and>
      snake (example_started\<lparr> state := MENU \<rparr>)
        = [(40 div 2, 30 div 2), (40 div 2 - 1, 30 div 2), (40 div 2 - 2, 30 div 2)] \<and>
      (\<forall>k sk. updates default_config example_source k (start_game (example_started\<lparr> state := MENU \<rparr>))
                 = Some (Inr sk) \<longrightarrow>
         state sk = (if int k < 40 - 40 div 2 then PLAYING else GAME_OVER))"
    by blast
  from safe before have s19: "state example_at_wall = (if int 19 < 40 - 40 div 2 then PLAYING else GAME_OVER)"
    unfolding st by blast
  from safe at have s20: "state example_game_over = (if int 20 < 40 - 40 div 2 then PLAYING else GAME_OVER)"
    unfolding st by blast
  from run pos example_source_off_row have live:
    "\<exists>s0. reset_game default_config example_source (initial_attributes 0 0) = Some (Inr s0) \<and>
           state s0 = MENU \<and>
           snake s0 = [(40 div 2, 30 div 2), (40 div 2 - 1, 30 div 2), (40 div 2 - 2, 30 div 2)] \<and>
           (\<forall>k. \<exists>sk. updates default_config example_source k (start_game s0) = Some (Inr sk) \<and>
                  state sk = (if int k < 40 - 40 div 2 then PLAYING else GAME_OVER))"
    by blast
  show ?thesis
    by (intro conjI)
      (rule dims, rule r, rule st, rule safe [THEN conjunct1], rule safe [THEN conjunct2, THEN conjunct1],
       rule before, rule s19, rule at, rule s20, rule pos(1), rule pos(2),
       rule example_source_off_row, rule live)
qed

lemma narrow_grid_full:
  assumes "snake t = [(2, 0), (1, 0), (0, 0), (-1, 0)]"
  shows "spawn_food example_narrow_config rnd t = None"
proof -
  have dims: "get_grid_dimensions example_narrow_config = Inr (3, 1)"
    by (simp add: get_grid_dimensions_def example_narrow_config_def default_config_def)
  have "(x, y) \<in> set (snake t)" if "0 \<le> x \<and> x < 3 \<and> 0 \<le> y \<and> y < 1" for x y :: int
  proof -
    from that have "y = 0" and "x = 0 \<or> x = 1 \<or> x = 2" by auto
    then show ?thesis by (auto simp: assms)
  qed
  then have "\<forall>x y. 0 \<le> x \<and> x < 3 \<and> 0 \<le> y \<and> y < 1 \<longrightarrow> (x, y) \<in> set (snake t)" by blast
  from spawn_food_loop_never_returns [OF _ _ this] show ?thesis
    by (simp add: spawn_food_def dims)
qed

text \<open>
  On a grid of three columns and one row the run stops short of the wall: the first
  \<^verbatim>\<open>update\<close> eats the food on the only free cell, the snake then covers the row, and the
  food placement never returns, whatever the random source draws. No step returns, so
  the state is not PLAYING after step 1 and the game is not over on step \<open>3 - 1 = 2\<close>.
\<close>

theorem straight_run_narrow_grid_counterexample:
  "get_grid_dimensions example_narrow_config = Inr (3, 1)
   \<and> reset_game example_narrow_config example_constant_source (initial_attributes 0 0)
       = Some (Inr (example_narrow_started\<lparr> state := MENU \<rparr>))
   \<and> start_game (example_narrow_started\<lparr> state := MENU \<rparr>) = example_narrow_started
   \<and> (3::int) - 3 div 2 = 2
   \<and> (\<forall>rnd k. updates example_narrow_config rnd (Suc k) example_narrow_started = None)"
proof -
  have dims: "get_grid_dimensions example_narrow_config = Inr (3, 1)"
    by (simp add: get_grid_dimensions_def example_narrow_config_def default_config_def)
  have r: "reset_game example_narrow_config example_constant_source (initial_attributes 0 0)
      = Some (Inr (example_narrow_started\<lparr> state := MENU \<rparr>))"
    by code_simp
  have st: "start_game (example_narrow_started\<lparr> state := MENU \<rparr>) = example_narrow_started"
    by (simp add: start_game_def example_narrow_started_def)
  have "update example_narrow_config rnd example_narrow_started = None" for rnd
    by (simp add: update_def Let_def example_narrow_started_def dims narrow_grid_full)
  then have "\<forall>rnd k. updates example_narrow_config rnd (Suc k) example_narrow_started = None"
    by simp
  with dims r st show ?thesis by simp
qed

end
